theory Spec2Isabelle
  imports Complex_Main "HOL-Library.Multiset"
begin

section \<open>The timetable generator of src/app/page.tsx\<close>

text \<open>
  The scheduling algorithm is the function \<open>buildSchedule\<close> (lines 68-135) with its
  local helper \<open>canAssignTeacher\<close>. It reads the module constants \<open>DAYS\<close>,
  \<open>PERIODS\<close>, \<open>SUBJECTS\<close>, \<open>TEACHERS\<close> and \<open>CLASSES\<close> and calls
  \<open>Math.random\<close>. In the model the catalog constants are the fields of a record that
  every function takes, the random numbers are a sequence \<open>rnd\<close> with a counter of the
  draws made so far, and the mutable object \<open>newSchedule\<close> is passed and returned.
\<close>

subsection \<open>Types (lines 7-27)\<close>

type_synonym Subject = string
type_synonym Teacher = string
type_synonym ClassName = string

record ScheduleSlot =
  subject :: Subject
  teacher :: Teacher

text \<open>
  The elements of \<open>PERIODS\<close>, which are also the keys of a \<open>DaySchedule\<close>: a
  number or one of the two break names.
\<close>

datatype Period = Num nat | Recess | Lunch

text \<open>
  A value of a \<open>DaySchedule\<close>: \<open>ScheduleSlot | 'Recess' | 'Lunch' | 'Free'\<close>. Only the
  first is an object for \<open>typeof\<close>.
\<close>

datatype SlotValue = Slot ScheduleSlot | RecessMarker | LunchMarker | Free

type_synonym DaySchedule = "Period \<rightharpoonup> SlotValue"
type_synonym ClassSchedule = "string \<rightharpoonup> DaySchedule"
type_synonym FullSchedule = "ClassName \<rightharpoonup> ClassSchedule"

text \<open>
  The run-time failure the code can meet: reading a property of \<open>undefined\<close>, or
  iterating \<open>undefined\<close> with \<open>for ... of\<close>.
\<close>

datatype error = TypeError

subsection \<open>Constants and mock data (lines 29-43)\<close>

record Catalog =
  CLASSES :: "ClassName list"
  DAYS :: "string list"
  SUBJECTS :: "Subject list"
  TEACHERS :: "Subject \<rightharpoonup> Teacher list"

definition PERIODS :: "Period list" where
  "PERIODS = [Num 1, Num 2, Recess, Num 3, Num 4, Lunch, Num 5, Num 6]"

definition mock_TEACHERS :: "Subject \<rightharpoonup> Teacher list" where
  "mock_TEACHERS = map_of
     [(''Math'', [''Mr. Smith'', ''Ms. Davis'']),
      (''Science'', [''Dr. Jones'', ''Mr. Wilson'']),
      (''English'', [''Ms. Taylor'', ''Mr. Brown'']),
      (''History'', [''Mrs. White'', ''Mr. Green'']),
      (''Art'', [''Ms. Black'']),
      (''PE'', [''Coach Carter''])]"

definition mock_catalog :: Catalog where
  "mock_catalog =
     \<lparr> CLASSES = [''Grade 10-A'', ''Grade 10-B'', ''Grade 11-A''],
       DAYS = [''Monday'', ''Tuesday'', ''Wednesday'', ''Thursday'', ''Friday''],
       SUBJECTS = [''Math'', ''Science'', ''English'', ''History'', ''Art'', ''PE''],
       TEACHERS = mock_TEACHERS \<rparr>"

subsection \<open>Loops that may throw\<close>

text \<open>
  \<open>xs.forEach(f)\<close> with a body that updates the state \<open>s\<close>: an exception thrown by
  the body ends the loop and is the result.
\<close>

fun forEach :: "('a \<Rightarrow> 's \<Rightarrow> error + 's) \<Rightarrow> 'a list \<Rightarrow> 's \<Rightarrow> error + 's" where
  "forEach f [] s = Inr s"
| "forEach f (x # xs) s = (case f x s of Inl e \<Rightarrow> Inl e | Inr s' \<Rightarrow> forEach f xs s')"

subsection \<open>Initialize empty schedule (lines 72-84)\<close>

definition init_period :: "DaySchedule \<Rightarrow> Period \<Rightarrow> DaySchedule" where
  "init_period ds period =
     (if period = Recess \<or> period = Lunch
      then ds(period \<mapsto> (if period = Recess then RecessMarker else LunchMarker))
      else ds(period \<mapsto> Free))"

definition init_day :: "ClassSchedule \<Rightarrow> string \<Rightarrow> ClassSchedule" where
  "init_day cs day = cs(day \<mapsto> foldl init_period Map.empty PERIODS)"

definition init_class :: "Catalog \<Rightarrow> FullSchedule \<Rightarrow> ClassName \<Rightarrow> FullSchedule" where
  "init_class cat S cls = S(cls \<mapsto> foldl init_day Map.empty (DAYS cat))"

definition init_schedule :: "Catalog \<Rightarrow> FullSchedule" where
  "init_schedule cat = foldl (init_class cat) Map.empty (CLASSES cat)"

subsection \<open>Reading and writing a slot\<close>

text \<open>
  \<open>newSchedule[c][day][period]\<close>: a TypeError when \<open>newSchedule[c]\<close> or
  \<open>newSchedule[c][day]\<close> is undefined; \<open>None\<close> is the value \<open>undefined\<close> of a
  missing period key.
\<close>

definition read_slot ::
  "FullSchedule \<Rightarrow> ClassName \<Rightarrow> string \<Rightarrow> Period \<Rightarrow> error + SlotValue option" where
  "read_slot S c day period =
     (case S c of
        None \<Rightarrow> Inl TypeError
      | Some cs \<Rightarrow> (case cs day of None \<Rightarrow> Inl TypeError | Some ds \<Rightarrow> Inr (ds period)))"

text \<open>\<open>newSchedule[cls][day][period] = v\<close>, with the same two failures.\<close>

definition write_slot ::
  "FullSchedule \<Rightarrow> ClassName \<Rightarrow> string \<Rightarrow> Period \<Rightarrow> SlotValue \<Rightarrow> error + FullSchedule" where
  "write_slot S cls day period v =
     (case S cls of
        None \<Rightarrow> Inl TypeError
      | Some cs \<Rightarrow>
          (case cs day of
             None \<Rightarrow> Inl TypeError
           | Some ds \<Rightarrow> Inr (S(cls \<mapsto> cs(day \<mapsto> ds(period \<mapsto> v))))))"

subsection \<open>canAssignTeacher (lines 87-96)\<close>

fun canAssignTeacher_loop ::
  "FullSchedule \<Rightarrow> Teacher \<Rightarrow> string \<Rightarrow> nat \<Rightarrow> ClassName list \<Rightarrow> error + bool" where
  "canAssignTeacher_loop S tchr day period [] = Inr True"
| "canAssignTeacher_loop S tchr day period (c # cs) =
     (case read_slot S c day (Num period) of
        Inl e \<Rightarrow> Inl e
      | Inr (Some (Slot slot)) \<Rightarrow>
          if teacher slot = tchr then Inr False
          else canAssignTeacher_loop S tchr day period cs
      | Inr _ \<Rightarrow> canAssignTeacher_loop S tchr day period cs)"

definition canAssignTeacher ::
  "Catalog \<Rightarrow> FullSchedule \<Rightarrow> Teacher \<Rightarrow> string \<Rightarrow> nat \<Rightarrow> error + bool" where
  "canAssignTeacher cat S tchr day period =
     canAssignTeacher_loop S tchr day period (CLASSES cat)"

subsection \<open>The shuffle (line 102)\<close>

text \<open>
  \<open>[...SUBJECTS].sort(() => Math.random() - 0.5)\<close> sorts a copy of the subjects with a
  comparator that ignores its arguments. The sort is the engine's: it is not part of
  the source, and the language leaves the order it gives with such a comparator to
  the engine. An insertion sort stands in for it here. \<open>rnd k\<close> is the result of the
  \<open>k\<close>-th call of \<open>Math.random\<close>, a number from 0 up to 1, and every comparison makes
  one call; the elements placed so far are kept in reverse, and the new element moves
  left past a neighbour when the comparator's value is positive. An engine compares
  in another order and makes another number of calls, so on the same random numbers
  the rotation of a run of the program is another than the one computed here. The
  properties of the builder below rest on one fact about the result only, that it has
  the elements of its argument.
\<close>

fun insert_left :: "(nat \<Rightarrow> rat) \<Rightarrow> 'a \<Rightarrow> 'a list \<Rightarrow> nat \<Rightarrow> 'a list \<times> nat" where
  "insert_left rnd x [] k = ([x], k)"
| "insert_left rnd x (y # ys) k =
     (if rnd k - 1 / 2 > 0
      then (case insert_left rnd x ys (Suc k) of (zs, k') \<Rightarrow> (y # zs, k'))
      else (x # y # ys, Suc k))"

fun sort_loop :: "(nat \<Rightarrow> rat) \<Rightarrow> 'a list \<Rightarrow> 'a list \<Rightarrow> nat \<Rightarrow> 'a list \<times> nat" where
  "sort_loop rnd [] placed k = (rev placed, k)"
| "sort_loop rnd (x # xs) placed k =
     (case insert_left rnd x placed k of (placed', k') \<Rightarrow> sort_loop rnd xs placed' k')"

definition sort_random :: "(nat \<Rightarrow> rat) \<Rightarrow> 'a list \<Rightarrow> nat \<Rightarrow> 'a list \<times> nat" where
  "sort_random rnd xs k = sort_loop rnd xs [] k"

subsection \<open>Assign subjects to classes (lines 99-132)\<close>

text \<open>
  \<open>dailySubjects[i % dailySubjects.length]\<close>: with an empty array the index is NaN and
  the element is \<open>undefined\<close>.
\<close>

definition subject_at :: "Subject list \<Rightarrow> nat \<Rightarrow> Subject option" where
  "subject_at dailySubjects i =
     (if length dailySubjects = 0 then None
      else Some (dailySubjects ! (i mod length dailySubjects)))"

text \<open>
  The \<open>for ... of\<close> loop over \<open>availableTeachers\<close> (lines 114-120). The result is the
  schedule and the flag \<open>assigned\<close>, which was false when the loop started.
\<close>

fun teacher_loop ::
  "Catalog \<Rightarrow> ClassName \<Rightarrow> string \<Rightarrow> nat \<Rightarrow> Subject \<Rightarrow> Teacher list \<Rightarrow> FullSchedule
     \<Rightarrow> error + (FullSchedule \<times> bool)" where
  "teacher_loop cat cls day period subj [] S = Inr (S, False)"
| "teacher_loop cat cls day period subj (t # ts) S =
     (case canAssignTeacher cat S t day period of
        Inl e \<Rightarrow> Inl e
      | Inr True \<Rightarrow>
          (case write_slot S cls day (Num period) (Slot \<lparr>subject = subj, teacher = t\<rparr>) of
             Inl e \<Rightarrow> Inl e
           | Inr S' \<Rightarrow> Inr (S', True))
      | Inr False \<Rightarrow> teacher_loop cat cls day period subj ts S)"

text \<open>
  The \<open>while\<close> loop (lines 109-122). \<open>TEACHERS[subject]\<close> is \<open>undefined\<close> for a subject
  without an entry, as it is for the subject \<open>undefined\<close>, and \<open>for ... of\<close> over
  \<open>undefined\<close> throws.
\<close>

function while_loop ::
  "Catalog \<Rightarrow> ClassName \<Rightarrow> string \<Rightarrow> nat \<Rightarrow> Subject list \<Rightarrow> nat \<Rightarrow> FullSchedule \<Rightarrow> bool \<Rightarrow> nat
     \<Rightarrow> error + (FullSchedule \<times> bool)" where
  "while_loop cat cls day period dailySubjects subjectIndex S assigned attempts =
     (if \<not> assigned \<and> attempts < length dailySubjects then
        (case subject_at dailySubjects (subjectIndex + attempts) of
           None \<Rightarrow> Inl TypeError
         | Some subj \<Rightarrow>
             (case TEACHERS cat subj of
                None \<Rightarrow> Inl TypeError
              | Some availableTeachers \<Rightarrow>
                  (case teacher_loop cat cls day period subj availableTeachers S of
                     Inl e \<Rightarrow> Inl e
                   | Inr (S', assigned') \<Rightarrow>
                       while_loop cat cls day period dailySubjects subjectIndex S' assigned'
                         (attempts + 1))))
      else Inr (S, assigned))"
  by pat_completeness auto
termination
  by (relation "measure (\<lambda>(cat, cls, day, period, dailySubjects, subjectIndex, S, assigned,
        attempts). length dailySubjects - attempts)") auto

declare while_loop.simps [simp del]

text \<open>The body of the loop over the teaching periods (lines 105-130).\<close>

definition period_body ::
  "Catalog \<Rightarrow> ClassName \<Rightarrow> string \<Rightarrow> Subject list \<Rightarrow> nat \<Rightarrow> FullSchedule \<times> nat
     \<Rightarrow> error + (FullSchedule \<times> nat)" where
  "period_body cat cls day dailySubjects period st =
     (case st of (S, subjectIndex) \<Rightarrow>
        (case while_loop cat cls day period dailySubjects subjectIndex S False 0 of
           Inl e \<Rightarrow> Inl e
         | Inr (S', assigned) \<Rightarrow>
             if assigned then Inr (S', subjectIndex + 1)
             else (case write_slot S' cls day (Num period) Free of
                     Inl e \<Rightarrow> Inl e
                   | Inr S'' \<Rightarrow> Inr (S'', subjectIndex))))"

definition teaching_periods :: "nat list" where
  "teaching_periods = [1, 2, 3, 4, 5, 6]"

text \<open>
  The body of the loop over the days (lines 100-131): the state is the schedule and
  the number of random draws made so far.
\<close>

definition day_body ::
  "Catalog \<Rightarrow> (nat \<Rightarrow> rat) \<Rightarrow> ClassName \<Rightarrow> string \<Rightarrow> FullSchedule \<times> nat
     \<Rightarrow> error + (FullSchedule \<times> nat)" where
  "day_body cat rnd cls day st =
     (case st of (S, k) \<Rightarrow>
        (case sort_random rnd (SUBJECTS cat) k of (dailySubjects, k') \<Rightarrow>
           (case forEach (period_body cat cls day dailySubjects) teaching_periods (S, 0) of
              Inl e \<Rightarrow> Inl e
            | Inr (S', subjectIndex) \<Rightarrow> Inr (S', k'))))"

definition class_body ::
  "Catalog \<Rightarrow> (nat \<Rightarrow> rat) \<Rightarrow> ClassName \<Rightarrow> FullSchedule \<times> nat \<Rightarrow> error + (FullSchedule \<times> nat)" where
  "class_body cat rnd cls st = forEach (day_body cat rnd cls) (DAYS cat) st"

definition buildSchedule :: "Catalog \<Rightarrow> (nat \<Rightarrow> rat) \<Rightarrow> error + FullSchedule" where
  "buildSchedule cat rnd =
     (case forEach (class_body cat rnd) (CLASSES cat) (init_schedule cat, 0) of
        Inl e \<Rightarrow> Inl e
      | Inr (S, k) \<Rightarrow> Inr S)"

section \<open>Vocabulary of the properties\<close>

subsection \<open>Observing a schedule\<close>

text \<open>
  The value stored for a class, day and period, \<open>None\<close> where any of the three keys
  is missing; and whether a class has an object for a day, which is what reading and
  writing a slot need.
\<close>

definition slot_at :: "FullSchedule \<Rightarrow> ClassName \<Rightarrow> string \<Rightarrow> Period \<Rightarrow> SlotValue option" where
  "slot_at S c day period =
     (case S c of None \<Rightarrow> None | Some cs \<Rightarrow> (case cs day of None \<Rightarrow> None | Some ds \<Rightarrow> ds period))"

definition day_defined :: "FullSchedule \<Rightarrow> ClassName \<Rightarrow> string \<Rightarrow> bool" where
  "day_defined S c day = (case S c of None \<Rightarrow> False | Some cs \<Rightarrow> cs day \<noteq> None)"

definition has_day :: "Catalog \<Rightarrow> FullSchedule \<Rightarrow> string \<Rightarrow> bool" where
  "has_day cat S day = (\<forall>c\<in>set (CLASSES cat). day_defined S c day)"

definition grid_defined :: "Catalog \<Rightarrow> FullSchedule \<Rightarrow> ClassName \<Rightarrow> string \<Rightarrow> bool" where
  "grid_defined cat S cls day = (has_day cat S day \<and> day_defined S cls day)"

definition assigned_at :: "FullSchedule \<Rightarrow> ClassName \<Rightarrow> string \<Rightarrow> nat \<Rightarrow> bool" where
  "assigned_at S c day period =
     (case slot_at S c day (Num period) of Some (Slot slot) \<Rightarrow> True | _ \<Rightarrow> False)"

text \<open>The schedule after a write that succeeds (the schedule itself where it throws).\<close>

definition set_slot :: "FullSchedule \<Rightarrow> ClassName \<Rightarrow> string \<Rightarrow> Period \<Rightarrow> SlotValue \<Rightarrow> FullSchedule" where
  "set_slot S cls day period v = (case write_slot S cls day period v of Inl e \<Rightarrow> S | Inr S' \<Rightarrow> S')"

text \<open>Some class of the catalog holds an assignment of the teacher at the day and period.\<close>

definition teacher_booked :: "Catalog \<Rightarrow> FullSchedule \<Rightarrow> Teacher \<Rightarrow> string \<Rightarrow> nat \<Rightarrow> bool" where
  "teacher_booked cat S tchr day period =
     (\<exists>c\<in>set (CLASSES cat).
        case slot_at S c day (Num period) of Some (Slot slot) \<Rightarrow> teacher slot = tchr | _ \<Rightarrow> False)"

text \<open>What the initialisation stores for a period.\<close>

definition initial_value :: "Period \<Rightarrow> SlotValue" where
  "initial_value period =
     (case period of Recess \<Rightarrow> RecessMarker | Lunch \<Rightarrow> LunchMarker | Num n \<Rightarrow> Free)"

subsection \<open>The slot assigner, in the words of the specification\<close>

text \<open>
  The candidates of one slot: candidate \<open>k\<close>, for \<open>k\<close> from \<open>0\<close> to \<open>N - 1\<close>, is the entry
  of the rotation at index \<open>(startIndex + k) mod N\<close>, where \<open>N\<close> is the length of the
  rotation.
\<close>

definition candidates :: "Subject list \<Rightarrow> nat \<Rightarrow> Subject list" where
  "candidates rotation startIndex =
     map (\<lambda>k. rotation ! ((startIndex + k) mod length rotation)) [0..<length rotation]"

text \<open>
  The first candidate with a teacher that \<open>canAssignTeacher\<close> reports free, with the
  first such teacher in the order of the subject's list.
\<close>

fun select_assignment ::
  "Catalog \<Rightarrow> FullSchedule \<Rightarrow> string \<Rightarrow> nat \<Rightarrow> Subject list \<Rightarrow> (Subject \<times> Teacher) option" where
  "select_assignment cat S day period [] = None"
| "select_assignment cat S day period (s # ss) =
     (case find (\<lambda>t. canAssignTeacher cat S t day period = Inr True)
             (case TEACHERS cat s of None \<Rightarrow> [] | Some ts \<Rightarrow> ts) of
        Some t \<Rightarrow> Some (s, t)
      | None \<Rightarrow> select_assignment cat S day period ss)"

text \<open>
  The same search with the failure of the code: a candidate without an entry in
  \<open>TEACHERS\<close> ends it with a TypeError.
\<close>

fun try_candidates ::
  "Catalog \<Rightarrow> FullSchedule \<Rightarrow> string \<Rightarrow> nat \<Rightarrow> Subject list \<Rightarrow> error + (Subject \<times> Teacher) option" where
  "try_candidates cat S day period [] = Inr None"
| "try_candidates cat S day period (s # ss) =
     (case TEACHERS cat s of
        None \<Rightarrow> Inl TypeError
      | Some ts \<Rightarrow>
          (case find (\<lambda>t. \<not> teacher_booked cat S t day period) ts of
             Some t \<Rightarrow> Inr (Some (s, t))
           | None \<Rightarrow> try_candidates cat S day period ss))"


subsection \<open>The states of a run\<close>

text \<open>
  The schedule when the assignment loops have finished the first \<open>i\<close> classes, the first
  \<open>j\<close> days of the next class and the first \<open>m\<close> teaching periods of its next day. Every
  period step writes the schedule once, so these are the schedules between the writes
  of lines 116 and 128; \<open>schedule_after cat rnd 0 0 0\<close> is the initialised grid.
\<close>

definition schedule_after :: "Catalog \<Rightarrow> (nat \<Rightarrow> rat) \<Rightarrow> nat \<Rightarrow> nat \<Rightarrow> nat \<Rightarrow> error + FullSchedule" where
  "schedule_after cat rnd i j m =
     (case forEach (class_body cat rnd) (take i (CLASSES cat)) (init_schedule cat, 0) of
        Inl e \<Rightarrow> Inl e
      | Inr st \<Rightarrow>
          (case forEach (day_body cat rnd (CLASSES cat ! i)) (take j (DAYS cat)) st of
             Inl e \<Rightarrow> Inl e
           | Inr (S, k) \<Rightarrow>
               (case forEach
                       (period_body cat (CLASSES cat ! i) (DAYS cat ! j)
                          (fst (sort_random rnd (SUBJECTS cat) k)))
                       (take m teaching_periods) (S, 0) of
                  Inl e \<Rightarrow> Inl e
                | Inr (S', subjectIndex) \<Rightarrow> Inr S')))"

text \<open>
  The schedule during the initialisation (lines 72-84): the first \<open>i\<close> classes are
  complete and the next class has its object with the first \<open>j\<close> days complete; with
  \<open>Some m\<close> its next day has its object too, with the first \<open>m\<close> periods stored.
\<close>

definition init_after :: "Catalog \<Rightarrow> nat \<Rightarrow> nat \<Rightarrow> nat option \<Rightarrow> FullSchedule" where
  "init_after cat i j m =
     (foldl (init_class cat) Map.empty (take i (CLASSES cat)))
       (CLASSES cat ! i \<mapsto>
          (case m of
             None \<Rightarrow> foldl init_day Map.empty (take j (DAYS cat))
           | Some n \<Rightarrow>
               (foldl init_day Map.empty (take j (DAYS cat)))
                 (DAYS cat ! j \<mapsto> foldl init_period Map.empty (take n PERIODS))))"

text \<open>
  The schedules the builder can pass through, whatever the shuffles give: the
  initialised grid, and from a schedule the two writes of a period step, with the
  conditions under which the code makes them.
\<close>

inductive reachable :: "Catalog \<Rightarrow> FullSchedule \<Rightarrow> bool" for cat :: Catalog where
  initial: "reachable cat (init_schedule cat)"
| assign:
    "reachable cat S \<Longrightarrow> cls \<in> set (CLASSES cat) \<Longrightarrow> day \<in> set (DAYS cat) \<Longrightarrow>
     p \<in> set teaching_periods \<Longrightarrow> s \<in> set (SUBJECTS cat) \<Longrightarrow> TEACHERS cat s = Some ts \<Longrightarrow>
     t \<in> set ts \<Longrightarrow> \<not> teacher_booked cat S t day p \<Longrightarrow>
     reachable cat (set_slot S cls day (Num p) (Slot \<lparr>subject = s, teacher = t\<rparr>))"
| free:
    "reachable cat S \<Longrightarrow> cls \<in> set (CLASSES cat) \<Longrightarrow> day \<in> set (DAYS cat) \<Longrightarrow>
     p \<in> set teaching_periods \<Longrightarrow> reachable cat (set_slot S cls day (Num p) Free)"

subsection \<open>The properties\<close>

definition no_double_booking :: "FullSchedule \<Rightarrow> bool" where
  "no_double_booking S =
     (\<forall>c1 c2 day period slot1 slot2.
        c1 \<noteq> c2 \<and> slot_at S c1 day period = Some (Slot slot1) \<and>
        slot_at S c2 day period = Some (Slot slot2) \<longrightarrow> teacher slot1 \<noteq> teacher slot2)"

text \<open>
  A cell of the grid (a class and a day of the catalog, a period of the layout) holds
  the marker of its break or, for a teaching period, an assignment or \<open>Free\<close>; outside
  the grid the schedule has no entry.
\<close>

definition cell_complete :: "Catalog \<Rightarrow> FullSchedule \<Rightarrow> ClassName \<Rightarrow> string \<Rightarrow> Period \<Rightarrow> bool" where
  "cell_complete cat S c d p =
     (if c \<in> set (CLASSES cat) \<and> d \<in> set (DAYS cat) \<and> p \<in> set PERIODS
      then (case p of
              Recess \<Rightarrow> slot_at S c d p = Some RecessMarker
            | Lunch \<Rightarrow> slot_at S c d p = Some LunchMarker
            | Num n \<Rightarrow> slot_at S c d p = Some Free \<or> (\<exists>slot. slot_at S c d p = Some (Slot slot)))
      else slot_at S c d p = None)"

definition grid_complete :: "Catalog \<Rightarrow> FullSchedule \<Rightarrow> bool" where
  "grid_complete cat S = (\<forall>c d p. cell_complete cat S c d p)"

definition valid_assignments :: "Catalog \<Rightarrow> FullSchedule \<Rightarrow> bool" where
  "valid_assignments cat S =
     (\<forall>c d p slot. slot_at S c d p = Some (Slot slot) \<longrightarrow>
        subject slot \<in> set (SUBJECTS cat) \<and>
        (\<exists>ts. TEACHERS cat (subject slot) = Some ts \<and> teacher slot \<in> set ts))"

text \<open>Every subject of \<open>SUBJECTS\<close> has an entry in \<open>TEACHERS\<close> (a list, possibly empty).\<close>

definition teachers_listed :: "Catalog \<Rightarrow> bool" where
  "teachers_listed cat = (\<forall>s\<in>set (SUBJECTS cat). TEACHERS cat s \<noteq> None)"

text \<open>Whatever the schedule, some subject has a teacher that is not booked.\<close>

definition always_assignable :: "Catalog \<Rightarrow> bool" where
  "always_assignable cat =
     (\<forall>S day p. \<exists>s\<in>set (SUBJECTS cat). \<exists>ts. TEACHERS cat s = Some ts \<and>
        (\<exists>t\<in>set ts. \<not> teacher_booked cat S t day p))"

definition keeps_assigned :: "FullSchedule \<Rightarrow> FullSchedule \<Rightarrow> bool" where
  "keeps_assigned S S' = (\<forall>c d q. assigned_at S c d q \<longrightarrow> assigned_at S' c d q)"

section \<open>Example inputs\<close>

text \<open>Two classes, one day, two subjects with one teacher each.\<close>

definition tiny_TEACHERS :: "Subject \<rightharpoonup> Teacher list" where
  "tiny_TEACHERS = map_of [(''Math'', [''T1'']), (''Science'', [''T2''])]"

definition tiny_catalog :: Catalog where
  "tiny_catalog =
     \<lparr> CLASSES = [''A'', ''B''], DAYS = [''Monday''], SUBJECTS = [''Math'', ''Science''],
       TEACHERS = tiny_TEACHERS \<rparr>"

text \<open>Two classes, one day, one subject with one teacher.\<close>

definition scarce_catalog :: Catalog where
  "scarce_catalog =
     \<lparr> CLASSES = [''A'', ''B''], DAYS = [''Monday''], SUBJECTS = [''Math''],
       TEACHERS = map_of [(''Math'', [''T1''])] \<rparr>"

text \<open>A subject whose teacher list is empty, alone and beside a subject with a teacher.\<close>

definition empty_list_catalog :: Catalog where
  "empty_list_catalog =
     \<lparr> CLASSES = [''A''], DAYS = [''Monday''], SUBJECTS = [''Math''],
       TEACHERS = map_of [(''Math'', [])] \<rparr>"

definition sparse_catalog :: Catalog where
  "sparse_catalog =
     \<lparr> CLASSES = [''A''], DAYS = [''Monday''], SUBJECTS = [''Math'', ''Art''],
       TEACHERS = map_of [(''Math'', []), (''Art'', [''T3''])] \<rparr>"

text \<open>Subjects without an entry in \<open>TEACHERS\<close>: one of two, and the only one.\<close>

definition unlisted_catalog :: Catalog where
  "unlisted_catalog =
     \<lparr> CLASSES = [''A''], DAYS = [''Monday''], SUBJECTS = [''Math'', ''Art''],
       TEACHERS = map_of [(''Math'', [''T1''])] \<rparr>"

definition no_teachers_catalog :: Catalog where
  "no_teachers_catalog =
     \<lparr> CLASSES = [''A''], DAYS = [''Monday''], SUBJECTS = [''Math''], TEACHERS = Map.empty \<rparr>"

text \<open>
  Random sequences: with \<open>rnd_low\<close> every comparison leaves the order as it is, with
  \<open>rnd_high\<close> every comparison moves the element.
\<close>

definition rnd_low :: "nat \<Rightarrow> rat" where
  "rnd_low k = 0"

definition rnd_high :: "nat \<Rightarrow> rat" where
  "rnd_high k = 3 / 4"

text \<open>
  The schedule of the tiny catalog, and the one in which its class \<open>B\<close> has three
  periods of its day.
\<close>

definition tiny_schedule :: FullSchedule where
  "tiny_schedule = projr (buildSchedule tiny_catalog rnd_high)"

definition tiny_partial :: FullSchedule where
  "tiny_partial = projr (schedule_after tiny_catalog rnd_high 1 0 3)"

definition scarce_schedule :: FullSchedule where
  "scarce_schedule = projr (buildSchedule scarce_catalog rnd_low)"





section \<open>Lemmas\<close>

subsection \<open>Slots\<close>

lemma read_slot_eq:
  "read_slot S c day p = (if day_defined S c day then Inr (slot_at S c day p) else Inl TypeError)"
  by (simp add: read_slot_def day_defined_def slot_at_def split: option.splits)

lemma write_slot_eq:
  "write_slot S cls day p v =
     (if day_defined S cls day then Inr (set_slot S cls day p v) else Inl TypeError)"
  by (simp add: write_slot_def day_defined_def set_slot_def split: option.splits)

lemma slot_at_set_slot:
  "day_defined S cls day \<Longrightarrow>
   slot_at (set_slot S cls day p v) c d q =
     (if c = cls \<and> d = day \<and> q = p then Some v else slot_at S c d q)"
  by (auto simp: write_slot_def day_defined_def set_slot_def slot_at_def split: option.splits)

lemma day_defined_set_slot:
  "day_defined (set_slot S cls day p v) c d = day_defined S c d"
  by (auto simp: write_slot_def day_defined_def set_slot_def split: option.splits)

lemma set_slot_same:
  "slot_at S cls day p = Some v \<Longrightarrow> set_slot S cls day p v = S"
  by (auto simp: write_slot_def set_slot_def slot_at_def fun_upd_idem split: option.splits)

subsection \<open>canAssignTeacher\<close>

lemma canAssignTeacher_loop_defined:
  "\<forall>c\<in>set cs. day_defined S c day \<Longrightarrow>
   canAssignTeacher_loop S t day p cs =
     Inr (\<not> (\<exists>c\<in>set cs. case slot_at S c day (Num p) of Some (Slot slot) \<Rightarrow> teacher slot = t | _ \<Rightarrow> False))"
  by (induction cs) (auto simp: read_slot_eq split: if_splits option.splits SlotValue.splits)

lemma canAssignTeacher_eq:
  "has_day cat S day \<Longrightarrow> canAssignTeacher cat S t day p = Inr (\<not> teacher_booked cat S t day p)"
  by (simp add: canAssignTeacher_def has_day_def teacher_booked_def canAssignTeacher_loop_defined)

subsection \<open>The shuffle\<close>

lemma mset_insert_left: "mset (fst (insert_left rnd x ys k)) = add_mset x (mset ys)"
proof (induction ys arbitrary: k)
  case Nil
  then show ?case by simp
next
  case (Cons y ys)
  show ?case using Cons.IH[of "Suc k"] by (auto split: prod.splits)
qed

lemma mset_sort_loop: "mset (fst (sort_loop rnd xs acc k)) = mset xs + mset acc"
proof (induction xs arbitrary: acc k)
  case Nil
  then show ?case by simp
next
  case (Cons x xs)
  show ?case using Cons.IH mset_insert_left[of rnd x acc k]
    by (auto split: prod.splits) 
qed

lemma mset_sort_random: "mset (fst (sort_random rnd xs k)) = mset xs"
  by (simp add: sort_random_def mset_sort_loop)

lemma set_sort_random: "set (fst (sort_random rnd xs k)) = set xs"
  using mset_sort_random[of rnd xs k] by (metis set_mset_mset)

subsection \<open>Loops\<close>



lemma forEach_invariant:
  assumes "forEach f xs s = Inr s'" "I s"
    and "\<And>x s s'. x \<in> set xs \<Longrightarrow> I s \<Longrightarrow> f x s = Inr s' \<Longrightarrow> I s'"
  shows "I s'"
  using assms
proof (induction xs arbitrary: s)
  case Nil
  then show ?case by simp
next
  case (Cons x xs)
  from Cons.prems(1) obtain s1 where s1: "f x s = Inr s1" "forEach f xs s1 = Inr s'"
    by (auto split: sum.splits)
  have "I s1" using Cons.prems(3)[OF _ Cons.prems(2) s1(1)] by simp
  moreover have "\<And>y t t'. y \<in> set xs \<Longrightarrow> I t \<Longrightarrow> f y t = Inr t' \<Longrightarrow> I t'"
    using Cons.prems(3) by (meson list.set_intros(2))
  ultimately show ?case using Cons.IH[OF s1(2)] by blast
qed

lemma forEach_total:
  assumes "I s"
    and "\<And>x s. x \<in> set xs \<Longrightarrow> I s \<Longrightarrow> \<exists>s'. f x s = Inr s' \<and> I s'"
  shows "\<exists>s'. forEach f xs s = Inr s' \<and> I s'"
  using assms
proof (induction xs arbitrary: s)
  case Nil
  then show ?case by simp
next
  case (Cons x xs)
  obtain s1 where s1: "f x s = Inr s1" "I s1" using Cons.prems(2)[of x s] Cons.prems(1) by auto
  show ?case using Cons.IH[OF s1(2)] Cons.prems(2) s1(1) by simp
qed

lemma forEach_no_step: "(\<And>x s. x \<in> set xs \<Longrightarrow> f x s = Inr s) \<Longrightarrow> forEach f xs s = Inr s"
  by (induction xs) auto

lemma forEach_accumulate:
  assumes "forEach f xs s = Inr s'" "I s"
    and step: "\<And>x s s'. x \<in> set xs \<Longrightarrow> I s \<Longrightarrow> f x s = Inr s' \<Longrightarrow> I s' \<and> R s s' \<and> Q x s'"
    and refl: "\<And>s. R s s" and trans: "\<And>a b c. R a b \<Longrightarrow> R b c \<Longrightarrow> R a c"
    and keep: "\<And>x a b. Q x a \<Longrightarrow> R a b \<Longrightarrow> Q x b"
  shows "I s' \<and> R s s' \<and> (\<forall>x\<in>set xs. Q x s')"
  using assms(1,2,3)
proof (induction xs arbitrary: s)
  case Nil
  then show ?case using refl by simp
next
  case (Cons x xs)
  from Cons.prems(1) obtain s1 where s1: "f x s = Inr s1" "forEach f xs s1 = Inr s'"
    by (auto split: sum.splits)
  have a: "I s1 \<and> R s s1 \<and> Q x s1" using Cons.prems(3)[of x s s1] Cons.prems(2) s1(1) by simp
  have "\<And>y t t'. y \<in> set xs \<Longrightarrow> I t \<Longrightarrow> f y t = Inr t' \<Longrightarrow> I t' \<and> R t t' \<and> Q y t'"
    using Cons.prems(3) by (meson list.set_intros(2))
  from Cons.IH[OF s1(2) _ this] a have b: "I s' \<and> R s1 s' \<and> (\<forall>y\<in>set xs. Q y s')" by blast
  show ?case using a b trans keep by (metis set_ConsD)
qed

subsection \<open>The candidates of a slot\<close>

lemma candidates_nth:
  "k < length rot \<Longrightarrow> candidates rot i ! k = rot ! ((i + k) mod length rot)"
  by (simp add: candidates_def)

lemma length_candidates: "length (candidates rot i) = length rot"
  by (simp add: candidates_def)

lemma set_candidates_subset: "set (candidates rot i) \<subseteq> set rot"
proof -
  have "rot ! ((i + k) mod length rot) \<in> set rot" if "k < length rot" for k
  proof -
    have "(i + k) mod length rot < length rot" using that by (intro mod_less_divisor) auto
    then show ?thesis by simp
  qed
  then show ?thesis by (auto simp: candidates_def)
qed

lemma rotate_index_onto:
  fixes N :: nat
  assumes "j < N"
  shows "\<exists>k<N. (i + k) mod N = j"
proof -
  have le: "i mod N \<le> j + N" using mod_less_divisor[of N i] assms by linarith
  have "i + (j + N - i mod N) = (i - i mod N) + (j + N)"
    using le mod_less_eq_dividend[of i N] by simp
  also have "\<dots> = N * (i div N) + (j + N)" by (simp add: minus_mod_eq_mult_div)
  finally have "(i + (j + N - i mod N)) mod N = j" using assms by simp
  then have "(i + (j + N - i mod N) mod N) mod N = j" by (simp add: mod_add_right_eq)
  moreover have "(j + N - i mod N) mod N < N" using assms by (intro mod_less_divisor) simp
  ultimately show ?thesis by blast
qed

lemma set_candidates: "set (candidates rot i) = set rot"
proof
  show "set (candidates rot i) \<subseteq> set rot" by (rule set_candidates_subset)
next
  show "set rot \<subseteq> set (candidates rot i)"
  proof
    fix x assume "x \<in> set rot"
    then obtain j where j: "j < length rot" "rot ! j = x" by (auto simp: in_set_conv_nth)
    from rotate_index_onto[OF j(1), of i] obtain k where k: "k < length rot" "(i + k) mod length rot = j"
      by auto
    have "candidates rot i ! k = x" using k j by (simp add: candidates_nth)
    then show "x \<in> set (candidates rot i)"
      using k(1) by (metis length_candidates nth_mem)
  qed
qed

lemma try_candidates_Some:
  "try_candidates cat S day p ss = Inr (Some (s, t)) \<Longrightarrow>
   s \<in> set ss \<and> (\<exists>ts. TEACHERS cat s = Some ts \<and> t \<in> set ts) \<and> \<not> teacher_booked cat S t day p"
  by (induction ss) (auto split: option.splits dest: find_Some_iff[THEN iffD1] simp: in_set_conv_nth)

lemma try_candidates_None:
  "try_candidates cat S day p ss = Inr None \<Longrightarrow>
   (\<forall>s\<in>set ss. \<exists>ts. TEACHERS cat s = Some ts \<and> (\<forall>t\<in>set ts. teacher_booked cat S t day p))"
  by (induction ss) (auto split: option.splits simp: find_None_iff)

lemma try_candidates_Inl:
  "try_candidates cat S day p ss = Inl e \<Longrightarrow> (\<exists>s\<in>set ss. TEACHERS cat s = None)"
  by (induction ss) (auto split: option.splits)

lemma try_candidates_select:
  assumes "has_day cat S day" "\<forall>s\<in>set ss. TEACHERS cat s \<noteq> None"
  shows "try_candidates cat S day p ss = Inr (select_assignment cat S day p ss)"
  using assms(2)
proof (induction ss)
  case Nil
  then show ?case by simp
next
  case (Cons s ss)
  then obtain ts where ts: "TEACHERS cat s = Some ts" by auto
  have "(\<lambda>t. canAssignTeacher cat S t day p = Inr True) = (\<lambda>t. \<not> teacher_booked cat S t day p)"
    by (simp add: canAssignTeacher_eq[OF assms(1)])
  then show ?case using Cons ts by (simp split: option.splits)
qed

subsection \<open>The loops of a period step\<close>

lemma teacher_loop_eq:
  "has_day cat S day \<Longrightarrow> day_defined S cls day \<Longrightarrow>
   teacher_loop cat cls day p subj ts S =
     (case find (\<lambda>t. \<not> teacher_booked cat S t day p) ts of
        None \<Rightarrow> Inr (S, False)
      | Some t \<Rightarrow> Inr (set_slot S cls day (Num p) (Slot \<lparr>subject = subj, teacher = t\<rparr>), True))"
  by (induction ts) (simp_all add: canAssignTeacher_eq write_slot_eq)

lemma while_loop_stop: "while_loop cat cls day p rot i S True a = Inr (S, True)"
  by (subst while_loop.simps) simp

lemma while_loop_end: "length rot \<le> a \<Longrightarrow> while_loop cat cls day p rot i S b a = Inr (S, b)"
  by (subst while_loop.simps) simp

lemma while_loop_eq:
  assumes "has_day cat S day" "day_defined S cls day"
  shows "while_loop cat cls day p rot i S False a =
     (case try_candidates cat S day p
             (map (\<lambda>k. rot ! ((i + k) mod length rot)) [a..<length rot]) of
        Inl e \<Rightarrow> Inl e
      | Inr None \<Rightarrow> Inr (S, False)
      | Inr (Some (s, t)) \<Rightarrow>
          Inr (set_slot S cls day (Num p) (Slot \<lparr>subject = s, teacher = t\<rparr>), True))"
proof (induction "length rot - a" arbitrary: a)
  case 0
  then show ?case by (simp add: while_loop_end)
next
  case (Suc n)
  then have lt: "a < length rot" and n: "n = length rot - Suc a" by auto
  have upt: "[a..<length rot] = a # [Suc a..<length rot]" using lt by (simp add: upt_conv_Cons)
  have sub: "subject_at rot (i + a) = Some (rot ! ((i + a) mod length rot))"
    using lt by (auto simp: subject_at_def)
  show ?case
  proof (cases "TEACHERS cat (rot ! ((i + a) mod length rot))")
    case None
    then show ?thesis using lt sub by (subst while_loop.simps) (simp add: upt)
  next
    case (Some ts)
    show ?thesis
    proof (cases "find (\<lambda>t. \<not> teacher_booked cat S t day p) ts")
      case None
      have "while_loop cat cls day p rot i S False a = while_loop cat cls day p rot i S False (Suc a)"
        using lt sub Some None assms by (subst while_loop.simps) (simp add: teacher_loop_eq)
      then show ?thesis using Suc.hyps(1)[OF n] Some None by (simp add: upt)
    next
      case (Some t)
      note ft = Some
      show ?thesis
        using lt sub \<open>TEACHERS cat _ = Some ts\<close> ft assms
        by (subst while_loop.simps) (simp add: teacher_loop_eq upt while_loop_stop)
    qed
  qed
qed

lemma period_body_eq:
  assumes "has_day cat S day" "day_defined S cls day"
  shows "period_body cat cls day rot p (S, i) =
     (case try_candidates cat S day p (candidates rot i) of
        Inl e \<Rightarrow> Inl e
      | Inr None \<Rightarrow> Inr (set_slot S cls day (Num p) Free, i)
      | Inr (Some (s, t)) \<Rightarrow>
          Inr (set_slot S cls day (Num p) (Slot \<lparr>subject = s, teacher = t\<rparr>), i + 1))"
  using assms
  by (simp add: period_body_def while_loop_eq candidates_def write_slot_eq day_defined_set_slot
      split: sum.splits option.splits prod.splits)

lemma period_body_select:
  assumes "grid_defined cat S cls day" "\<forall>s\<in>set rot. TEACHERS cat s \<noteq> None"
  shows "period_body cat cls day rot p (S, i) =
     (case select_assignment cat S day p (candidates rot i) of
        Some (s, t) \<Rightarrow> Inr (set_slot S cls day (Num p) (Slot \<lparr>subject = s, teacher = t\<rparr>), i + 1)
      | None \<Rightarrow> Inr (set_slot S cls day (Num p) Free, i))"
proof -
  have hd: "has_day cat S day" and dd: "day_defined S cls day"
    using assms(1) by (simp_all add: grid_defined_def)
  have "\<forall>s\<in>set (candidates rot i). TEACHERS cat s \<noteq> None"
    using assms(2) set_candidates_subset[of rot i] by blast
  then show ?thesis
    by (simp add: period_body_eq[OF hd dd] try_candidates_select[OF hd] split: option.splits)
qed
lemma while_loop_skip:
  assumes "a < length rot" "TEACHERS cat (rot ! ((i + a) mod length rot)) = Some []"
  shows "while_loop cat cls day p rot i S False a = while_loop cat cls day p rot i S False (a + 1)"
proof -
  have "subject_at rot (i + a) = Some (rot ! ((i + a) mod length rot))"
    using assms(1) by (auto simp: subject_at_def)
  then show ?thesis using assms by (subst while_loop.simps) simp
qed

subsection \<open>The initialised grid\<close>

lemma foldl_map_upd:
  "foldl (\<lambda>m k. m(k \<mapsto> g k)) m0 xs k = (if k \<in> set xs then Some (g k) else m0 k)"
  by (induction xs arbitrary: m0) auto

lemma init_period_upd: "init_period = (\<lambda>ds p. ds(p \<mapsto> initial_value p))"
  by (auto simp: init_period_def initial_value_def fun_eq_iff split: Period.splits)

lemma init_day_upd: "init_day = (\<lambda>cs d. cs(d \<mapsto> foldl init_period Map.empty PERIODS))"
  by (auto simp: init_day_def fun_eq_iff)

lemma init_class_upd: "init_class cat = (\<lambda>S c. S(c \<mapsto> foldl init_day Map.empty (DAYS cat)))"
  by (auto simp: init_class_def fun_eq_iff)

lemma init_schedule_class:
  "init_schedule cat c =
     (if c \<in> set (CLASSES cat) then Some (foldl init_day Map.empty (DAYS cat)) else None)"
  unfolding init_schedule_def init_class_upd by (rule foldl_map_upd)

lemma init_days_day:
  "foldl init_day Map.empty ds d =
     (if d \<in> set ds then Some (foldl init_period Map.empty PERIODS) else None)"
  unfolding init_day_upd by (rule foldl_map_upd)

lemma init_periods_period:
  "foldl init_period Map.empty ps p = (if p \<in> set ps then Some (initial_value p) else None)"
  unfolding init_period_upd by (rule foldl_map_upd)

lemma slot_at_init:
  "slot_at (init_schedule cat) c d p =
     (if c \<in> set (CLASSES cat) \<and> d \<in> set (DAYS cat) \<and> p \<in> set PERIODS
      then Some (initial_value p) else None)"
  by (simp add: slot_at_def init_schedule_class init_days_day init_periods_period)

lemma day_defined_init:
  "day_defined (init_schedule cat) c d = (c \<in> set (CLASSES cat) \<and> d \<in> set (DAYS cat))"
  by (simp add: day_defined_def init_schedule_class init_days_day)

lemma teaching_period_in_PERIODS: "p \<in> set teaching_periods \<Longrightarrow> Num p \<in> set PERIODS"
  by (auto simp: teaching_periods_def PERIODS_def)

lemma init_classes_class:
  "foldl (init_class cat) Map.empty cs c =
     (if c \<in> set cs then Some (foldl init_day Map.empty (DAYS cat)) else None)"
  unfolding init_class_upd by (rule foldl_map_upd)

lemma slot_at_init_after:
  "slot_at (init_after cat i j m) c d p = Some v \<Longrightarrow> v = initial_value p"
  by (auto simp: slot_at_def init_after_def init_classes_class init_days_day init_periods_period
      split: if_splits option.splits)

lemma init_after_no_double_booking: "no_double_booking (init_after cat i j m)"
  unfolding no_double_booking_def
  by (auto dest!: slot_at_init_after simp: initial_value_def split: Period.splits)

subsection \<open>The builder stays among the reachable schedules\<close>

lemma reachable_day_defined:
  "reachable cat S \<Longrightarrow> day_defined S c d = (c \<in> set (CLASSES cat) \<and> d \<in> set (DAYS cat))"
  by (induction rule: reachable.induct) (simp_all add: day_defined_init day_defined_set_slot)

lemma reachable_has_day: "reachable cat S \<Longrightarrow> day \<in> set (DAYS cat) \<Longrightarrow> has_day cat S day"
  by (simp add: has_day_def reachable_day_defined)

lemma reachable_grid_defined:
  "reachable cat S \<Longrightarrow> cls \<in> set (CLASSES cat) \<Longrightarrow> day \<in> set (DAYS cat) \<Longrightarrow> grid_defined cat S cls day"
  by (simp add: grid_defined_def reachable_has_day reachable_day_defined)

lemma period_body_reachable:
  assumes "reachable cat S" "cls \<in> set (CLASSES cat)" "day \<in> set (DAYS cat)"
    "p \<in> set teaching_periods" "set rot \<subseteq> set (SUBJECTS cat)"
    "period_body cat cls day rot p (S, i) = Inr (S', i')"
  shows "reachable cat S'"
proof -
  have hd: "has_day cat S day" and dd: "day_defined S cls day"
    using assms(1-3) by (simp_all add: reachable_has_day reachable_day_defined)
  show ?thesis
  proof (cases "try_candidates cat S day p (candidates rot i)")
    case (Inl e)
    then show ?thesis using assms(6) by (simp add: period_body_eq[OF hd dd])
  next
    case (Inr r)
    show ?thesis
    proof (cases r)
      case None
      then have "S' = set_slot S cls day (Num p) Free"
        using Inr assms(6) by (simp add: period_body_eq[OF hd dd])
      then show ?thesis using assms(1-4) by (simp add: reachable.free)
    next
      case (Some st)
      obtain s t where st: "st = (s, t)" by (cases st)
      have S': "S' = set_slot S cls day (Num p) (Slot \<lparr>subject = s, teacher = t\<rparr>)"
        using Inr Some st assms(6) by (simp add: period_body_eq[OF hd dd])
      from try_candidates_Some[of cat S day p "candidates rot i" s t] Inr Some st
      obtain ts where "s \<in> set (candidates rot i)" "TEACHERS cat s = Some ts" "t \<in> set ts"
        "\<not> teacher_booked cat S t day p" by auto
      moreover have "s \<in> set (SUBJECTS cat)"
        using calculation(1) set_candidates_subset[of rot i] assms(5) by auto
      ultimately show ?thesis unfolding S' using assms(1-4) by (intro reachable.assign)
    qed
  qed
qed

lemma periods_reachable:
  assumes "forEach (period_body cat cls day rot) ps (S, i) = Inr (S', i')"
    "reachable cat S" "cls \<in> set (CLASSES cat)" "day \<in> set (DAYS cat)"
    "set ps \<subseteq> set teaching_periods" "set rot \<subseteq> set (SUBJECTS cat)"
  shows "reachable cat S'"
proof -
  have "reachable cat (fst (S', i'))"
  proof (rule forEach_invariant[where I = "\<lambda>st. reachable cat (fst st)", OF assms(1)])
    show "reachable cat (fst (S, i))" using assms(2) by simp
  next
    fix x s s'
    assume "x \<in> set ps" "reachable cat (fst s)" "period_body cat cls day rot x s = Inr s'"
    then show "reachable cat (fst s')"
      using period_body_reachable[of cat "fst s" cls day x rot "snd s" "fst s'" "snd s'"] assms(3-6)
      by auto
  qed
  then show ?thesis by simp
qed

lemma day_body_reachable:
  assumes "day_body cat rnd cls day (S, k) = Inr (S', k')"
    "reachable cat S" "cls \<in> set (CLASSES cat)" "day \<in> set (DAYS cat)"
  shows "reachable cat S'"
proof -
  obtain rot k1 where sr: "sort_random rnd (SUBJECTS cat) k = (rot, k1)" by force
  have rot: "set rot \<subseteq> set (SUBJECTS cat)" using set_sort_random[of rnd "SUBJECTS cat" k] sr by simp
  from assms(1) sr obtain i' where
    "forEach (period_body cat cls day rot) teaching_periods (S, 0) = Inr (S', i')"
    by (auto simp: day_body_def split: sum.splits)
  then show ?thesis using periods_reachable[OF _ assms(2-4) _ rot] by simp
qed

lemma days_reachable:
  assumes "forEach (day_body cat rnd cls) ds (S, k) = Inr (S', k')"
    "reachable cat S" "cls \<in> set (CLASSES cat)" "set ds \<subseteq> set (DAYS cat)"
  shows "reachable cat S'"
proof -
  have "reachable cat (fst (S', k'))"
  proof (rule forEach_invariant[where I = "\<lambda>st. reachable cat (fst st)", OF assms(1)])
    show "reachable cat (fst (S, k))" using assms(2) by simp
  next
    fix x s s'
    assume "x \<in> set ds" "reachable cat (fst s)" "day_body cat rnd cls x s = Inr s'"
    then show "reachable cat (fst s')"
      using day_body_reachable[of cat rnd cls x "fst s" "snd s" "fst s'" "snd s'"] assms(3,4)
      by auto
  qed
  then show ?thesis by simp
qed

lemma classes_reachable:
  assumes "forEach (class_body cat rnd) cs (S, k) = Inr (S', k')"
    "reachable cat S" "set cs \<subseteq> set (CLASSES cat)"
  shows "reachable cat S'"
proof -
  have "reachable cat (fst (S', k'))"
  proof (rule forEach_invariant[where I = "\<lambda>st. reachable cat (fst st)", OF assms(1)])
    show "reachable cat (fst (S, k))" using assms(2) by simp
  next
    fix x s s'
    assume "x \<in> set cs" "reachable cat (fst s)" "class_body cat rnd x s = Inr s'"
    then show "reachable cat (fst s')"
      using days_reachable[of cat rnd x "DAYS cat" "fst s" "snd s" "fst s'" "snd s'"] assms(3)
      by (auto simp: class_body_def)
  qed
  then show ?thesis by simp
qed

lemma buildSchedule_reachable:
  assumes "buildSchedule cat rnd = Inr S"
  shows "reachable cat S"
proof -
  from assms obtain k where
    "forEach (class_body cat rnd) (CLASSES cat) (init_schedule cat, 0) = Inr (S, k)"
    by (auto simp: buildSchedule_def split: sum.splits)
  then show ?thesis using classes_reachable[OF _ reachable.initial] by simp
qed

lemma schedule_after_reachable:
  assumes "schedule_after cat rnd i j m = Inr S" "i < length (CLASSES cat)" "j < length (DAYS cat)"
  shows "reachable cat S"
proof -
  let ?c = "CLASSES cat ! i" and ?d = "DAYS cat ! j"
  from assms(1) obtain S1 k1 S2 k2 idx where
    a: "forEach (class_body cat rnd) (take i (CLASSES cat)) (init_schedule cat, 0) = Inr (S1, k1)"
    and b: "forEach (day_body cat rnd ?c) (take j (DAYS cat)) (S1, k1) = Inr (S2, k2)"
    and c: "forEach (period_body cat ?c ?d (fst (sort_random rnd (SUBJECTS cat) k2)))
              (take m teaching_periods) (S2, 0) = Inr (S, idx)"
    by (auto simp: schedule_after_def split: sum.splits prod.splits)
  have c_in: "?c \<in> set (CLASSES cat)" and d_in: "?d \<in> set (DAYS cat)" using assms(2,3) by simp_all
  have r1: "reachable cat S1"
    using classes_reachable[OF a reachable.initial] by (simp add: set_take_subset)
  have r2: "reachable cat S2"
    using days_reachable[OF b r1 c_in] by (simp add: set_take_subset)
  show ?thesis
    using periods_reachable[OF c r2 c_in d_in] by (simp add: set_take_subset set_sort_random)
qed

subsection \<open>Invariants of the reachable schedules\<close>

lemma reachable_slots_in_classes:
  "reachable cat S \<Longrightarrow> slot_at S c d p = Some (Slot slot) \<Longrightarrow>
   c \<in> set (CLASSES cat) \<and> (\<exists>n. p = Num n)"
proof (induction arbitrary: c d p slot rule: reachable.induct)
  case initial
  then show ?case by (auto simp: slot_at_init initial_value_def split: if_splits Period.splits)
next
  case (assign S cls day p' s ts t)
  have dd: "day_defined S cls day" using assign.hyps(1-3) by (simp add: reachable_day_defined)
  show ?case using assign.prems assign.IH[of c d p slot] assign.hyps(2)
    by (auto simp: slot_at_set_slot[OF dd] split: if_splits)
next
  case (free S cls day p')
  have dd: "day_defined S cls day" using free.hyps(1-3) by (simp add: reachable_day_defined)
  show ?case using free.prems free.IH[of c d p slot]
    by (auto simp: slot_at_set_slot[OF dd] split: if_splits)
qed

lemma reachable_no_double_booking: "reachable cat S \<Longrightarrow> no_double_booking S"
proof (induction rule: reachable.induct)
  case initial
  show ?case
    by (auto simp: no_double_booking_def slot_at_init initial_value_def split: if_splits Period.splits)
next
  case (assign S cls day p s ts t)
  have dd: "day_defined S cls day" using assign.hyps(1-3) by (simp add: reachable_day_defined)
  have other: "teacher slot \<noteq> t" if "slot_at S c day (Num p) = Some (Slot slot)" for c slot
  proof -
    have "c \<in> set (CLASSES cat)" using reachable_slots_in_classes[OF assign.hyps(1) that] by simp
    then show ?thesis using assign.hyps(8) that by (auto simp: teacher_booked_def)
  qed
  show ?case unfolding no_double_booking_def
  proof (intro allI impI, elim conjE)
    fix c1 c2 d q slot1 slot2
    assume ne: "c1 \<noteq> c2"
      and s1: "slot_at (set_slot S cls day (Num p) (Slot \<lparr>subject = s, teacher = t\<rparr>)) c1 d q = Some (Slot slot1)"
      and s2: "slot_at (set_slot S cls day (Num p) (Slot \<lparr>subject = s, teacher = t\<rparr>)) c2 d q = Some (Slot slot2)"
    show "teacher slot1 \<noteq> teacher slot2"
    proof (cases "d = day \<and> q = Num p \<and> (c1 = cls \<or> c2 = cls)")
      case True
      then show ?thesis using ne s1 s2 other[of c1 slot1] other[of c2 slot2]
        by (auto simp: slot_at_set_slot[OF dd] split: if_splits)
    next
      case False
      then have "slot_at S c1 d q = Some (Slot slot1)" "slot_at S c2 d q = Some (Slot slot2)"
        using s1 s2 by (auto simp: slot_at_set_slot[OF dd] split: if_splits)
      then show ?thesis using assign.IH ne unfolding no_double_booking_def by blast
    qed
  qed
next
  case (free S cls day p)
  have dd: "day_defined S cls day" using free.hyps(1-3) by (simp add: reachable_day_defined)
  show ?case unfolding no_double_booking_def
  proof (intro allI impI, elim conjE)
    fix c1 c2 d q slot1 slot2
    assume ne: "c1 \<noteq> c2"
      and s1: "slot_at (set_slot S cls day (Num p) Free) c1 d q = Some (Slot slot1)"
      and s2: "slot_at (set_slot S cls day (Num p) Free) c2 d q = Some (Slot slot2)"
    have "slot_at S c1 d q = Some (Slot slot1)" "slot_at S c2 d q = Some (Slot slot2)"
      using s1 s2 by (auto simp: slot_at_set_slot[OF dd] split: if_splits)
    then show "teacher slot1 \<noteq> teacher slot2"
      using free.IH ne unfolding no_double_booking_def by blast
  qed
qed

lemma cell_complete_set_slot:
  assumes "day_defined S cls day" "cls \<in> set (CLASSES cat)" "day \<in> set (DAYS cat)"
    "Num p \<in> set PERIODS" "v = Free \<or> (\<exists>slot. v = Slot slot)" "cell_complete cat S c d q"
  shows "cell_complete cat (set_slot S cls day (Num p) v) c d q"
  using assms(2-6)
  by (cases q) (auto simp: cell_complete_def slot_at_set_slot[OF assms(1)] split: if_splits)

lemma reachable_grid_complete: "reachable cat S \<Longrightarrow> grid_complete cat S"
proof (induction rule: reachable.induct)
  case initial
  show ?case
    by (auto simp: grid_complete_def cell_complete_def slot_at_init initial_value_def
        split: Period.splits)
next
  case (assign S cls day p s ts t)
  have "day_defined S cls day" using assign.hyps(1-3) by (simp add: reachable_day_defined)
  then show ?case
    using assign.IH assign.hyps(2-4) unfolding grid_complete_def
    by (auto intro!: cell_complete_set_slot teaching_period_in_PERIODS)
next
  case (free S cls day p)
  have "day_defined S cls day" using free.hyps(1-3) by (simp add: reachable_day_defined)
  then show ?case
    using free.IH free.hyps(2-4) unfolding grid_complete_def
    by (auto intro!: cell_complete_set_slot teaching_period_in_PERIODS)
qed

lemma reachable_valid_assignments: "reachable cat S \<Longrightarrow> valid_assignments cat S"
proof (induction rule: reachable.induct)
  case initial
  show ?case
    by (auto simp: valid_assignments_def slot_at_init initial_value_def split: if_splits Period.splits)
next
  case (assign S cls day p s ts t)
  have dd: "day_defined S cls day" using assign.hyps(1-3) by (simp add: reachable_day_defined)
  show ?case using assign.IH assign.hyps(5-7) unfolding valid_assignments_def
    by (auto simp: slot_at_set_slot[OF dd] split: if_splits)
next
  case (free S cls day p)
  have dd: "day_defined S cls day" using free.hyps(1-3) by (simp add: reachable_day_defined)
  show ?case using free.IH unfolding valid_assignments_def
    by (auto simp: slot_at_set_slot[OF dd] split: if_splits)
qed

lemma reachable_no_subjects:
  "reachable cat S \<Longrightarrow> SUBJECTS cat = [] \<Longrightarrow> S = init_schedule cat"
proof (induction rule: reachable.induct)
  case initial
  show ?case by simp
next
  case (assign S cls day p s ts t)
  then show ?case by simp
next
  case (free S cls day p)
  have "slot_at (init_schedule cat) cls day (Num p) = Some Free"
    using free.hyps(2-4) teaching_period_in_PERIODS[of p]
    by (simp add: slot_at_init initial_value_def)
  then show ?case using free.IH free.prems by (simp add: set_slot_same)
qed


subsection \<open>The builder returns\<close>

lemma period_body_total:
  assumes "reachable cat S" "cls \<in> set (CLASSES cat)" "day \<in> set (DAYS cat)"
    "\<forall>s\<in>set rot. TEACHERS cat s \<noteq> None"
  shows "\<exists>st'. period_body cat cls day rot p (S, i) = Inr st'"
proof -
  have hd: "has_day cat S day" and dd: "day_defined S cls day"
    using assms(1-3) by (simp_all add: reachable_has_day reachable_day_defined)
  have "\<not> (\<exists>e. try_candidates cat S day p (candidates rot i) = Inl e)"
    using try_candidates_Inl[of cat S day p "candidates rot i"] set_candidates_subset[of rot i] assms(4)
    by blast
  then show ?thesis
    by (cases "try_candidates cat S day p (candidates rot i)")
       (auto simp: period_body_eq[OF hd dd] split: option.splits)
qed

lemma periods_total:
  assumes "reachable cat S" "cls \<in> set (CLASSES cat)" "day \<in> set (DAYS cat)"
    "set ps \<subseteq> set teaching_periods" "set rot \<subseteq> set (SUBJECTS cat)" "teachers_listed cat"
  shows "\<exists>st'. forEach (period_body cat cls day rot) ps (S, i) = Inr st' \<and> reachable cat (fst st')"
proof (rule forEach_total[where I = "\<lambda>st. reachable cat (fst st)"])
  show "reachable cat (fst (S, i))" using assms(1) by simp
next
  fix x and st :: "FullSchedule \<times> nat"
  assume x: "x \<in> set ps" and r: "reachable cat (fst st)"
  have "\<forall>s\<in>set rot. TEACHERS cat s \<noteq> None" using assms(5,6) by (auto simp: teachers_listed_def)
  from period_body_total[OF r assms(2,3) this, where p = x and i = "snd st"]
  obtain st' where st': "period_body cat cls day rot x st = Inr st'" by auto
  have "reachable cat (fst st')"
    using period_body_reachable[of cat "fst st" cls day x rot "snd st" "fst st'" "snd st'"]
      r assms(2-5) x st' by auto
  then show "\<exists>s'. period_body cat cls day rot x st = Inr s' \<and> reachable cat (fst s')"
    using st' by blast
qed

lemma day_body_total:
  assumes "reachable cat S" "cls \<in> set (CLASSES cat)" "day \<in> set (DAYS cat)" "teachers_listed cat"
  shows "\<exists>st'. day_body cat rnd cls day (S, k) = Inr st' \<and> reachable cat (fst st')"
proof -
  obtain rot k1 where sr: "sort_random rnd (SUBJECTS cat) k = (rot, k1)" by force
  have rot: "set rot \<subseteq> set (SUBJECTS cat)" using set_sort_random[of rnd "SUBJECTS cat" k] sr by simp
  from periods_total[OF assms(1-3) _ rot assms(4), where ps = teaching_periods and i = 0]
  obtain S' i' where "forEach (period_body cat cls day rot) teaching_periods (S, 0) = Inr (S', i')"
    "reachable cat S'" by auto
  then show ?thesis using sr by (simp add: day_body_def)
qed

lemma days_total:
  assumes "reachable cat S" "cls \<in> set (CLASSES cat)" "set ds \<subseteq> set (DAYS cat)" "teachers_listed cat"
  shows "\<exists>st'. forEach (day_body cat rnd cls) ds (S, k) = Inr st' \<and> reachable cat (fst st')"
proof (rule forEach_total[where I = "\<lambda>st. reachable cat (fst st)"])
  show "reachable cat (fst (S, k))" using assms(1) by simp
next
  fix x and st :: "FullSchedule \<times> nat"
  assume "x \<in> set ds" "reachable cat (fst st)"
  then show "\<exists>s'. day_body cat rnd cls x st = Inr s' \<and> reachable cat (fst s')"
    using day_body_total[of cat "fst st" cls x rnd "snd st"] assms(2-4) by auto
qed

lemma classes_total:
  assumes "reachable cat S" "set cs \<subseteq> set (CLASSES cat)" "teachers_listed cat"
  shows "\<exists>st'. forEach (class_body cat rnd) cs (S, k) = Inr st' \<and> reachable cat (fst st')"
proof (rule forEach_total[where I = "\<lambda>st. reachable cat (fst st)"])
  show "reachable cat (fst (S, k))" using assms(1) by simp
next
  fix x and st :: "FullSchedule \<times> nat"
  assume "x \<in> set cs" "reachable cat (fst st)"
  then show "\<exists>s'. class_body cat rnd x st = Inr s' \<and> reachable cat (fst s')"
    using days_total[of cat "fst st" x "DAYS cat" rnd "snd st"] assms(2,3)
    by (auto simp: class_body_def)
qed

lemma buildSchedule_total:
  assumes "teachers_listed cat"
  shows "\<exists>S. buildSchedule cat rnd = Inr S"
proof -
  from classes_total[OF reachable.initial _ assms, where cs = "CLASSES cat" and rnd = rnd and k = 0]
  obtain st' where "forEach (class_body cat rnd) (CLASSES cat) (init_schedule cat, 0) = Inr st'"
    by auto
  then show ?thesis by (cases st') (simp add: buildSchedule_def)
qed

lemma schedule_after_total:
  assumes "teachers_listed cat" "i < length (CLASSES cat)" "j < length (DAYS cat)"
  shows "\<exists>S. schedule_after cat rnd i j m = Inr S"
proof -
  let ?c = "CLASSES cat ! i" and ?d = "DAYS cat ! j"
  have c_in: "?c \<in> set (CLASSES cat)" and d_in: "?d \<in> set (DAYS cat)" using assms(2,3) by simp_all
  from classes_total[OF reachable.initial _ assms(1), where cs = "take i (CLASSES cat)" and rnd = rnd and k = 0]
  obtain S1 k1 where a: "forEach (class_body cat rnd) (take i (CLASSES cat)) (init_schedule cat, 0) = Inr (S1, k1)"
    and r1: "reachable cat S1" by (auto simp: set_take_subset)
  from days_total[OF r1 c_in _ assms(1), where ds = "take j (DAYS cat)" and rnd = rnd and k = k1]
  obtain S2 k2 where b: "forEach (day_body cat rnd ?c) (take j (DAYS cat)) (S1, k1) = Inr (S2, k2)"
    and r2: "reachable cat S2" by (auto simp: set_take_subset)
  from periods_total[OF r2 c_in d_in _ _ assms(1), where ps = "take m teaching_periods"
      and rot = "fst (sort_random rnd (SUBJECTS cat) k2)" and i = 0]
  obtain S3 i3 where "forEach (period_body cat ?c ?d (fst (sort_random rnd (SUBJECTS cat) k2)))
      (take m teaching_periods) (S2, 0) = Inr (S3, i3)"
    by (auto simp: set_take_subset set_sort_random)
  then show ?thesis using a b by (simp add: schedule_after_def)
qed

lemma buildSchedule_Inl:
  assumes "buildSchedule cat rnd = Inl e"
  shows "(\<exists>s\<in>set (SUBJECTS cat). TEACHERS cat s = None) \<and> CLASSES cat \<noteq> [] \<and> DAYS cat \<noteq> []"
proof -
  have "\<not> teachers_listed cat" using buildSchedule_total[of cat rnd] assms by auto
  moreover have "CLASSES cat \<noteq> []" using assms by (auto simp: buildSchedule_def)
  moreover have "DAYS cat \<noteq> []"
  proof
    assume "DAYS cat = []"
    then have "forEach (class_body cat rnd) (CLASSES cat) (init_schedule cat, 0) = Inr (init_schedule cat, 0)"
      by (intro forEach_no_step) (simp add: class_body_def)
    then show False using assms by (simp add: buildSchedule_def)
  qed
  ultimately show ?thesis by (auto simp: teachers_listed_def)
qed

subsection \<open>The rotation pointer\<close>









subsection \<open>Slots whose turn has not come\<close>

lemma period_body_elsewhere:
  assumes "period_body cat cls day rot p (S, i) = Inr (S', i')" "grid_defined cat S cls day"
    "\<not> (c = cls \<and> d = day \<and> q = Num p)"
  shows "slot_at S' c d q = slot_at S c d q"
proof -
  have hd: "has_day cat S day" and dd: "day_defined S cls day"
    using assms(2) by (simp_all add: grid_defined_def)
  from assms(1) have "(S' = set_slot S cls day (Num p) Free) \<or>
    (\<exists>s t. S' = set_slot S cls day (Num p) (Slot \<lparr>subject = s, teacher = t\<rparr>))"
    by (auto simp: period_body_eq[OF hd dd] split: sum.splits option.splits)
  then show ?thesis using assms(3) by (auto simp: slot_at_set_slot[OF dd])
qed

lemma periods_elsewhere:
  assumes "forEach (period_body cat cls day rot) ps (S, i) = Inr (S', i')"
    "reachable cat S" "cls \<in> set (CLASSES cat)" "day \<in> set (DAYS cat)"
    "set ps \<subseteq> set teaching_periods" "set rot \<subseteq> set (SUBJECTS cat)"
    "\<not> (c = cls \<and> d = day \<and> q \<in> Num ` set ps)"
  shows "slot_at S' c d q = slot_at S c d q"
proof -
  let ?I = "\<lambda>st :: FullSchedule \<times> nat. reachable cat (fst st) \<and> slot_at (fst st) c d q = slot_at S c d q"
  have "?I (S', i')"
  proof (rule forEach_invariant[where I = ?I, OF assms(1)])
    show "?I (S, i)" using assms(2) by simp
  next
    fix x s s'
    assume x: "x \<in> set ps" and I: "?I s" and step: "period_body cat cls day rot x s = Inr s'"
    have e: "period_body cat cls day rot x (fst s, snd s) = Inr (fst s', snd s')" using step by simp
    have r: "reachable cat (fst s')"
      using period_body_reachable[OF _ assms(3,4) _ assms(6) e] I x assms(5) by auto
    have "\<not> (c = cls \<and> d = day \<and> q = Num x)" using x assms(7) by auto
    from period_body_elsewhere[OF e reachable_grid_defined[OF _ assms(3,4)] this] I r
    show "?I s'" by simp
  qed
  then show ?thesis by simp
qed

lemma day_body_elsewhere:
  assumes "day_body cat rnd cls day (S, k) = Inr (S', k')"
    "reachable cat S" "cls \<in> set (CLASSES cat)" "day \<in> set (DAYS cat)"
    "\<not> (c = cls \<and> d = day)"
  shows "slot_at S' c d q = slot_at S c d q"
proof -
  obtain rot k1 where sr: "sort_random rnd (SUBJECTS cat) k = (rot, k1)" by force
  have rot: "set rot \<subseteq> set (SUBJECTS cat)" using set_sort_random[of rnd "SUBJECTS cat" k] sr by simp
  from assms(1) sr obtain i' where
    "forEach (period_body cat cls day rot) teaching_periods (S, 0) = Inr (S', i')"
    by (auto simp: day_body_def split: sum.splits)
  from periods_elsewhere[OF this assms(2-4) _ rot, of c d q] assms(5) show ?thesis by auto
qed

lemma days_elsewhere:
  assumes "forEach (day_body cat rnd cls) ds (S, k) = Inr (S', k')"
    "reachable cat S" "cls \<in> set (CLASSES cat)" "set ds \<subseteq> set (DAYS cat)"
    "\<not> (c = cls \<and> d \<in> set ds)"
  shows "slot_at S' c d q = slot_at S c d q"
proof -
  let ?I = "\<lambda>st :: FullSchedule \<times> nat. reachable cat (fst st) \<and> slot_at (fst st) c d q = slot_at S c d q"
  have "?I (S', k')"
  proof (rule forEach_invariant[where I = ?I, OF assms(1)])
    show "?I (S, k)" using assms(2) by simp
  next
    fix x s s'
    assume x: "x \<in> set ds" and I: "?I s" and step: "day_body cat rnd cls x s = Inr s'"
    have e: "day_body cat rnd cls x (fst s, snd s) = Inr (fst s', snd s')" using step by simp
    have xd: "x \<in> set (DAYS cat)" using x assms(4) by auto
    have r: "reachable cat (fst s')" using day_body_reachable[OF e _ assms(3) xd] I by simp
    have "\<not> (c = cls \<and> d = x)" using x assms(5) by auto
    from day_body_elsewhere[OF e _ assms(3) xd this, of q] I r show "?I s'" by simp
  qed
  then show ?thesis by simp
qed

lemma classes_elsewhere:
  assumes "forEach (class_body cat rnd) cs (S, k) = Inr (S', k')"
    "reachable cat S" "set cs \<subseteq> set (CLASSES cat)" "c \<notin> set cs"
  shows "slot_at S' c d q = slot_at S c d q"
proof -
  let ?I = "\<lambda>st :: FullSchedule \<times> nat. reachable cat (fst st) \<and> slot_at (fst st) c d q = slot_at S c d q"
  have "?I (S', k')"
  proof (rule forEach_invariant[where I = ?I, OF assms(1)])
    show "?I (S, k)" using assms(2) by simp
  next
    fix x s s'
    assume x: "x \<in> set cs" and I: "?I s" and step: "class_body cat rnd x s = Inr s'"
    have e: "forEach (day_body cat rnd x) (DAYS cat) (fst s, snd s) = Inr (fst s', snd s')"
      using step by (simp add: class_body_def)
    have xc: "x \<in> set (CLASSES cat)" using x assms(3) by auto
    have r: "reachable cat (fst s')" using days_reachable[OF e _ xc] I by simp
    have "\<not> (c = x \<and> d \<in> set (DAYS cat))" using x assms(4) by auto
    from days_elsewhere[OF e _ xc _ this, of q] I r show "?I s'" by simp
  qed
  then show ?thesis by simp
qed

lemma nth_notin_take: "distinct xs \<Longrightarrow> i < length xs \<Longrightarrow> xs ! i \<notin> set (take i xs)"
  by (metis id_take_nth_drop distinct_append disjoint_iff list.set_intros(1))

lemma schedule_after_next_slot_free:
  assumes "schedule_after cat rnd i j m = Inr S" "i < length (CLASSES cat)" "j < length (DAYS cat)"
    "m < length teaching_periods" "distinct (CLASSES cat)" "distinct (DAYS cat)"
  shows "slot_at S (CLASSES cat ! i) (DAYS cat ! j) (Num (teaching_periods ! m)) = Some Free"
proof -
  let ?c = "CLASSES cat ! i" and ?d = "DAYS cat ! j" and ?q = "Num (teaching_periods ! m)"
  from assms(1) obtain S1 k1 S2 k2 idx where
    a: "forEach (class_body cat rnd) (take i (CLASSES cat)) (init_schedule cat, 0) = Inr (S1, k1)"
    and b: "forEach (day_body cat rnd ?c) (take j (DAYS cat)) (S1, k1) = Inr (S2, k2)"
    and c: "forEach (period_body cat ?c ?d (fst (sort_random rnd (SUBJECTS cat) k2)))
              (take m teaching_periods) (S2, 0) = Inr (S, idx)"
    by (auto simp: schedule_after_def split: sum.splits prod.splits)
  have c_in: "?c \<in> set (CLASSES cat)" and d_in: "?d \<in> set (DAYS cat)" using assms(2,3) by simp_all
  have r1: "reachable cat S1"
    using classes_reachable[OF a reachable.initial] by (simp add: set_take_subset)
  have r2: "reachable cat S2"
    using days_reachable[OF b r1 c_in] by (simp add: set_take_subset)
  have dp: "distinct teaching_periods" by (simp add: teaching_periods_def)
  have "teaching_periods ! m \<notin> set (take m teaching_periods)"
    using nth_notin_take[OF dp assms(4)] .
  then have "slot_at S ?c ?d ?q = slot_at S2 ?c ?d ?q"
    using periods_elsewhere[OF c r2 c_in d_in, of ?c ?d ?q]
    by (auto simp: set_take_subset set_sort_random)
  also have "\<dots> = slot_at S1 ?c ?d ?q"
    using days_elsewhere[OF b r1 c_in, of ?c ?d ?q] nth_notin_take[OF assms(6,3)]
    by (auto simp: set_take_subset)
  also have "\<dots> = slot_at (init_schedule cat) ?c ?d ?q"
    using classes_elsewhere[OF a reachable.initial _ nth_notin_take[OF assms(5,2)], of ?d ?q]
    by (auto simp: set_take_subset)
  also have "\<dots> = Some Free"
    using c_in d_in assms(4) teaching_period_in_PERIODS[of "teaching_periods ! m"]
    by (simp add: slot_at_init initial_value_def)
  finally show ?thesis .
qed

subsection \<open>Catalogs that never leave a slot free\<close>

lemma period_body_assigns:
  assumes "grid_defined cat S cls day" "set rot = set (SUBJECTS cat)" "always_assignable cat"
    "period_body cat cls day rot p (S, i) = Inr (S', i')"
  shows "assigned_at S' cls day p \<and> keeps_assigned S S'"
proof -
  have hd: "has_day cat S day" and dd: "day_defined S cls day"
    using assms(1) by (simp_all add: grid_defined_def)
  have "try_candidates cat S day p (candidates rot i) \<noteq> Inr None"
  proof
    assume "try_candidates cat S day p (candidates rot i) = Inr None"
    from try_candidates_None[OF this] have
      "\<forall>s\<in>set (SUBJECTS cat). \<exists>ts. TEACHERS cat s = Some ts \<and> (\<forall>t\<in>set ts. teacher_booked cat S t day p)"
      by (simp add: set_candidates assms(2))
    then show False using assms(3) unfolding always_assignable_def by (metis option.inject)
  qed
  then obtain s t where "S' = set_slot S cls day (Num p) (Slot \<lparr>subject = s, teacher = t\<rparr>)"
    using assms(4) by (auto simp: period_body_eq[OF hd dd] split: sum.splits option.splits)
  then show ?thesis
    by (auto simp: assigned_at_def keeps_assigned_def slot_at_set_slot[OF dd])
qed

lemma periods_assign:
  assumes "forEach (period_body cat cls day rot) ps (S, i) = Inr (S', i')"
    "reachable cat S" "cls \<in> set (CLASSES cat)" "day \<in> set (DAYS cat)"
    "set ps \<subseteq> set teaching_periods" "set rot = set (SUBJECTS cat)" "always_assignable cat"
  shows "reachable cat S' \<and> keeps_assigned S S' \<and> (\<forall>p\<in>set ps. assigned_at S' cls day p)"
proof -
  have "reachable cat (fst (S', i')) \<and> keeps_assigned (fst (S, i)) (fst (S', i')) \<and>
    (\<forall>p\<in>set ps. assigned_at (fst (S', i')) cls day p)"
  proof (rule forEach_accumulate[where I = "\<lambda>st. reachable cat (fst st)"
        and R = "\<lambda>st st'. keeps_assigned (fst st) (fst st')"
        and Q = "\<lambda>p st. assigned_at (fst st) cls day p", OF assms(1)])
    show "reachable cat (fst (S, i))" using assms(2) by simp
  next
    fix x and s s' :: "FullSchedule \<times> nat"
    assume x: "x \<in> set ps" and r: "reachable cat (fst s)"
      and st: "period_body cat cls day rot x s = Inr s'"
    have e: "period_body cat cls day rot x (fst s, snd s) = Inr (fst s', snd s')" using st by simp
    have "reachable cat (fst s')"
      using period_body_reachable[OF r assms(3,4) _ _ e] x assms(5,6) by auto
    moreover have "assigned_at (fst s') cls day x \<and> keeps_assigned (fst s) (fst s')"
      using period_body_assigns[OF reachable_grid_defined[OF r assms(3,4)] assms(6,7) e] .
    ultimately show "reachable cat (fst s') \<and> keeps_assigned (fst s) (fst s') \<and>
      assigned_at (fst s') cls day x" by simp
  qed (auto simp: keeps_assigned_def)
  then show ?thesis by simp
qed

lemma day_body_assign:
  assumes "day_body cat rnd cls day (S, k) = Inr (S', k')"
    "reachable cat S" "cls \<in> set (CLASSES cat)" "day \<in> set (DAYS cat)" "always_assignable cat"
  shows "reachable cat S' \<and> keeps_assigned S S' \<and> (\<forall>p\<in>set teaching_periods. assigned_at S' cls day p)"
proof -
  obtain rot k1 where sr: "sort_random rnd (SUBJECTS cat) k = (rot, k1)" by force
  have rot: "set rot = set (SUBJECTS cat)" using set_sort_random[of rnd "SUBJECTS cat" k] sr by simp
  from assms(1) sr obtain i' where
    "forEach (period_body cat cls day rot) teaching_periods (S, 0) = Inr (S', i')"
    by (auto simp: day_body_def split: sum.splits)
  from periods_assign[OF this assms(2-4) _ rot assms(5)] show ?thesis by simp
qed

lemma days_assign:
  assumes "forEach (day_body cat rnd cls) ds (S, k) = Inr (S', k')"
    "reachable cat S" "cls \<in> set (CLASSES cat)" "set ds \<subseteq> set (DAYS cat)" "always_assignable cat"
  shows "reachable cat S' \<and> keeps_assigned S S' \<and>
    (\<forall>d\<in>set ds. \<forall>p\<in>set teaching_periods. assigned_at S' cls d p)"
proof -
  have "reachable cat (fst (S', k')) \<and> keeps_assigned (fst (S, k)) (fst (S', k')) \<and>
    (\<forall>d\<in>set ds. \<forall>p\<in>set teaching_periods. assigned_at (fst (S', k')) cls d p)"
  proof (rule forEach_accumulate[where I = "\<lambda>st. reachable cat (fst st)"
        and R = "\<lambda>st st'. keeps_assigned (fst st) (fst st')"
        and Q = "\<lambda>d st. \<forall>p\<in>set teaching_periods. assigned_at (fst st) cls d p", OF assms(1)])
    show "reachable cat (fst (S, k))" using assms(2) by simp
  next
    fix x and s s' :: "FullSchedule \<times> nat"
    assume x: "x \<in> set ds" and r: "reachable cat (fst s)"
      and st: "day_body cat rnd cls x s = Inr s'"
    have e: "day_body cat rnd cls x (fst s, snd s) = Inr (fst s', snd s')" using st by simp
    have "x \<in> set (DAYS cat)" using x assms(4) by auto
    from day_body_assign[OF e r assms(3) this assms(5)]
    show "reachable cat (fst s') \<and> keeps_assigned (fst s) (fst s') \<and>
      (\<forall>p\<in>set teaching_periods. assigned_at (fst s') cls x p)" .
  qed (auto simp: keeps_assigned_def)
  then show ?thesis by simp
qed

lemma classes_assign:
  assumes "forEach (class_body cat rnd) cs (S, k) = Inr (S', k')"
    "reachable cat S" "set cs \<subseteq> set (CLASSES cat)" "always_assignable cat"
  shows "reachable cat S' \<and> keeps_assigned S S' \<and>
    (\<forall>c\<in>set cs. \<forall>d\<in>set (DAYS cat). \<forall>p\<in>set teaching_periods. assigned_at S' c d p)"
proof -
  have "reachable cat (fst (S', k')) \<and> keeps_assigned (fst (S, k)) (fst (S', k')) \<and>
    (\<forall>c\<in>set cs. \<forall>d\<in>set (DAYS cat). \<forall>p\<in>set teaching_periods. assigned_at (fst (S', k')) c d p)"
  proof (rule forEach_accumulate[where I = "\<lambda>st. reachable cat (fst st)"
        and R = "\<lambda>st st'. keeps_assigned (fst st) (fst st')"
        and Q = "\<lambda>c st. \<forall>d\<in>set (DAYS cat). \<forall>p\<in>set teaching_periods. assigned_at (fst st) c d p",
        OF assms(1)])
    show "reachable cat (fst (S, k))" using assms(2) by simp
  next
    fix x and s s' :: "FullSchedule \<times> nat"
    assume x: "x \<in> set cs" and r: "reachable cat (fst s)"
      and st: "class_body cat rnd x s = Inr s'"
    have e: "forEach (day_body cat rnd x) (DAYS cat) (fst s, snd s) = Inr (fst s', snd s')"
      using st by (simp add: class_body_def)
    have "x \<in> set (CLASSES cat)" using x assms(3) by auto
    from days_assign[OF e r this _ assms(4)]
    show "reachable cat (fst s') \<and> keeps_assigned (fst s) (fst s') \<and>
      (\<forall>d\<in>set (DAYS cat). \<forall>p\<in>set teaching_periods. assigned_at (fst s') x d p)" by simp
  qed (auto simp: keeps_assigned_def)
  then show ?thesis by simp
qed

lemma buildSchedule_all_assigned:
  assumes "buildSchedule cat rnd = Inr S" "always_assignable cat"
  shows "\<forall>c\<in>set (CLASSES cat). \<forall>d\<in>set (DAYS cat). \<forall>p\<in>set teaching_periods. assigned_at S c d p"
proof -
  from assms(1) obtain k where
    "forEach (class_body cat rnd) (CLASSES cat) (init_schedule cat, 0) = Inr (S, k)"
    by (auto simp: buildSchedule_def split: sum.splits)
  from classes_assign[OF this reachable.initial _ assms(2)] show ?thesis by simp
qed

lemma mock_always_assignable: "always_assignable mock_catalog"
  unfolding always_assignable_def
proof (intro allI, rule ccontr)
  fix S day p
  assume "\<not> (\<exists>s\<in>set (SUBJECTS mock_catalog). \<exists>ts. TEACHERS mock_catalog s = Some ts \<and>
           (\<exists>t\<in>set ts. \<not> teacher_booked mock_catalog S t day p))"
  then have all: "teacher_booked mock_catalog S t day p"
    if "s \<in> set (SUBJECTS mock_catalog)" "TEACHERS mock_catalog s = Some ts" "t \<in> set ts"
    for s ts t using that by blast
  define f where "f c = (case slot_at S c day (Num p) of Some (Slot slot) \<Rightarrow> teacher slot | _ \<Rightarrow> [])" for c
  have inf: "t \<in> f ` set (CLASSES mock_catalog)" if "teacher_booked mock_catalog S t day p" for t
  proof -
    from that obtain c where c: "c \<in> set (CLASSES mock_catalog)"
      "case slot_at S c day (Num p) of Some (Slot slot) \<Rightarrow> teacher slot = t | _ \<Rightarrow> False"
      unfolding teacher_booked_def by blast
    from c(2) have "f c = t" by (simp add: f_def split: option.splits SlotValue.splits)
    then show ?thesis using c(1) by blast
  qed
  have b1: "''Mr. Smith'' \<in> f ` set (CLASSES mock_catalog)"
    using all[of "''Math''" "[''Mr. Smith'', ''Ms. Davis'']" "''Mr. Smith''"]
    by (intro inf) (simp add: mock_catalog_def mock_TEACHERS_def)
  have b2: "''Dr. Jones'' \<in> f ` set (CLASSES mock_catalog)"
    using all[of "''Science''" "[''Dr. Jones'', ''Mr. Wilson'']" "''Dr. Jones''"]
    by (intro inf) (simp add: mock_catalog_def mock_TEACHERS_def)
  have b3: "''Ms. Taylor'' \<in> f ` set (CLASSES mock_catalog)"
    using all[of "''English''" "[''Ms. Taylor'', ''Mr. Brown'']" "''Ms. Taylor''"]
    by (intro inf) (simp add: mock_catalog_def mock_TEACHERS_def)
  have b4: "''Mrs. White'' \<in> f ` set (CLASSES mock_catalog)"
    using all[of "''History''" "[''Mrs. White'', ''Mr. Green'']" "''Mrs. White''"]
    by (intro inf) (simp add: mock_catalog_def mock_TEACHERS_def)
  have sub: "set [''Mr. Smith'', ''Dr. Jones'', ''Ms. Taylor'', ''Mrs. White''] \<subseteq> f ` set (CLASSES mock_catalog)"
    using b1 b2 b3 b4 by simp
  have "card (set [''Mr. Smith'', ''Dr. Jones'', ''Ms. Taylor'', ''Mrs. White'']) = 4"
    by (subst distinct_card) simp_all
  moreover have "card (f ` set (CLASSES mock_catalog)) \<le> 3"
    using card_image_le[of "set (CLASSES mock_catalog)" f] card_length[of "CLASSES mock_catalog"]
    by (simp add: mock_catalog_def)
  ultimately show False using card_mono[OF _ sub] by simp
qed

lemma mock_teachers_listed: "teachers_listed mock_catalog"
  by (simp add: teachers_listed_def mock_catalog_def mock_TEACHERS_def)

section \<open>The claims\<close>

subsection \<open>Evaluated examples\<close>

lemma tiny_schedule_returned: "buildSchedule tiny_catalog rnd_high = Inr tiny_schedule"
proof -
  have "\<not> isl (buildSchedule tiny_catalog rnd_high)" by code_simp
  then show ?thesis unfolding tiny_schedule_def by simp
qed

lemma tiny_partial_returned: "schedule_after tiny_catalog rnd_high 1 0 3 = Inr tiny_partial"
proof -
  have "\<not> isl (schedule_after tiny_catalog rnd_high 1 0 3)" by code_simp
  then show ?thesis unfolding tiny_partial_def by simp
qed

lemma scarce_schedule_returned: "buildSchedule scarce_catalog rnd_low = Inr scarce_schedule"
proof -
  have "\<not> isl (buildSchedule scarce_catalog rnd_low)" by code_simp
  then show ?thesis unfolding scarce_schedule_def by simp
qed

lemma tiny_partial_has_day: "has_day tiny_catalog tiny_partial ''Monday''"
  unfolding tiny_partial_def by code_simp

lemma isl_TypeError: "isl r \<Longrightarrow> r = Inl TypeError" for r :: "error + 'a"
proof (cases r)
  case (Inl e)
  then show ?thesis by (cases e) simp
next
  case (Inr x)
  assume "isl r"
  then show ?thesis using Inr by simp
qed



subsection \<open>C1: no double-booking\<close>

text \<open>
  C1. In the schedule \<open>buildSchedule\<close> returns, and in every schedule it passes through
  while it builds it (the schedules of the initialisation, and the schedules between
  the writes of the assignment loops), two distinct classes that both hold an
  assignment at the same day and period have different teachers: a teacher appears
  in at most one class's assignment at a day and period.
\<close>

theorem no_double_booking_invariant:
  assumes "buildSchedule cat rnd = Inr S \<or>
    (i < length (CLASSES cat) \<and> j < length (DAYS cat) \<and> schedule_after cat rnd i j m = Inr S) \<or>
    S = init_after cat i j n"
  shows "no_double_booking S"
proof -
  consider (final) "buildSchedule cat rnd = Inr S"
    | (during) "i < length (CLASSES cat)" "j < length (DAYS cat)" "schedule_after cat rnd i j m = Inr S"
    | (init) "S = init_after cat i j n"
    using assms by blast
  then show ?thesis
  proof cases
    case final
    then show ?thesis by (intro reachable_no_double_booking buildSchedule_reachable)
  next
    case during
    then show ?thesis by (intro reachable_no_double_booking schedule_after_reachable)
  next
    case init
    then show ?thesis by (simp add: init_after_no_double_booking)
  qed
qed

theorem no_double_booking_invariant_witness:
  "no_double_booking tiny_schedule \<and> no_double_booking tiny_partial \<and>
   no_double_booking (init_after tiny_catalog 1 0 (Some 3)) \<and>
   slot_at tiny_partial ''A'' ''Monday'' (Num 2) = Some (Slot \<lparr>subject = ''Math'', teacher = ''T1''\<rparr>) \<and>
   slot_at tiny_partial ''B'' ''Monday'' (Num 2) = Some (Slot \<lparr>subject = ''Science'', teacher = ''T2''\<rparr>) \<and>
   slot_at tiny_partial ''B'' ''Monday'' (Num 4) = Some Free"
proof -
  have a: "no_double_booking tiny_schedule"
    using no_double_booking_invariant[of tiny_catalog rnd_high tiny_schedule 0 0 0 None]
      tiny_schedule_returned by simp
  have "(1::nat) < length (CLASSES tiny_catalog) \<and> (0::nat) < length (DAYS tiny_catalog)"
    by (simp add: tiny_catalog_def)
  then have b: "no_double_booking tiny_partial"
    using no_double_booking_invariant[of tiny_catalog rnd_high tiny_partial 1 0 3 None]
      tiny_partial_returned by simp
  have c: "no_double_booking (init_after tiny_catalog 1 0 (Some 3))"
    using no_double_booking_invariant[of tiny_catalog rnd_high
        "init_after tiny_catalog 1 0 (Some 3)" 1 0 0 "Some 3"] by simp
  have d: "slot_at tiny_partial ''A'' ''Monday'' (Num 2) =
      Some (Slot \<lparr>subject = ''Math'', teacher = ''T1''\<rparr>)"
    unfolding tiny_partial_def by code_simp
  have e: "slot_at tiny_partial ''B'' ''Monday'' (Num 2) =
      Some (Slot \<lparr>subject = ''Science'', teacher = ''T2''\<rparr>)"
    unfolding tiny_partial_def by code_simp
  have f: "slot_at tiny_partial ''B'' ''Monday'' (Num 4) = Some Free"
    unfolding tiny_partial_def by code_simp
  show ?thesis using a b c d e f by simp
qed

subsection \<open>C2: failures\<close>

text \<open>
  C2. The claim is that a malformed catalog, in particular one with a subject whose
  teacher list is empty, makes \<open>buildSchedule\<close> signal a ConfigurationError before any
  assignment. The code validates nothing and has no such error: for a catalog whose
  only subject has an empty teacher list it returns a schedule, with the slot \<open>Free\<close>.
\<close>

theorem empty_teacher_list_counterexample:
  "\<not> isl (buildSchedule empty_list_catalog rnd_low) \<and>
   slot_at (projr (buildSchedule empty_list_catalog rnd_low)) ''A'' ''Monday'' (Num 1) = Some Free"
  by code_simp

text \<open>
  C2, amended. \<open>buildSchedule\<close> fails only when the catalog is malformed in that a
  subject of \<open>SUBJECTS\<close> has no entry in \<open>TEACHERS\<close> (and there is a class and a day to
  assign); the failure is the TypeError of the run, raised in the assignment loop,
  and a failed run returns no schedule. A subject with an empty teacher list is not
  such a failure.
\<close>

theorem failure_only_for_unlisted_subject:
  assumes "buildSchedule cat rnd = Inl e"
  shows "e = TypeError \<and> (\<exists>s\<in>set (SUBJECTS cat). TEACHERS cat s = None) \<and>
    CLASSES cat \<noteq> [] \<and> DAYS cat \<noteq> []"
  using buildSchedule_Inl[OF assms] by (cases e) simp

theorem failure_only_for_unlisted_subject_witness:
  "buildSchedule unlisted_catalog rnd_low = Inl TypeError \<and>
   TEACHERS unlisted_catalog ''Art'' = None \<and>
   (\<exists>s\<in>set (SUBJECTS unlisted_catalog). TEACHERS unlisted_catalog s = None) \<and>
   slot_at (projr (schedule_after unlisted_catalog rnd_low 0 0 1)) ''A'' ''Monday'' (Num 1) =
     Some (Slot \<lparr>subject = ''Math'', teacher = ''T1''\<rparr>)"
proof -
  have "isl (buildSchedule unlisted_catalog rnd_low)" by code_simp
  then have a: "buildSchedule unlisted_catalog rnd_low = Inl TypeError" by (rule isl_TypeError)
  have b: "TEACHERS unlisted_catalog ''Art'' = None" by (simp add: unlisted_catalog_def)
  have c: "slot_at (projr (schedule_after unlisted_catalog rnd_low 0 0 1)) ''A'' ''Monday'' (Num 1) =
      Some (Slot \<lparr>subject = ''Math'', teacher = ''T1''\<rparr>)"
    by code_simp
  show ?thesis using failure_only_for_unlisted_subject[OF a] a b c by simp
qed

subsection \<open>C3: rotation monotonicity\<close>



subsection \<open>C4: grid completeness\<close>

text \<open>
  C4. In the schedule \<open>buildSchedule\<close> returns, every class of the catalog, every day
  and every period of the layout \<open>[1, 2, Recess, 3, 4, Lunch, 5, 6]\<close> has one entry: the
  breaks hold their own marker, and a teaching period holds an assignment or \<open>Free\<close>.
  The schedule has no entry outside this grid.
\<close>

theorem grid_completeness:
  assumes "buildSchedule cat rnd = Inr S"
  shows "grid_complete cat S"
  using assms by (intro reachable_grid_complete buildSchedule_reachable)

theorem grid_completeness_witness:
  "grid_complete scarce_catalog scarce_schedule \<and>
   slot_at scarce_schedule ''A'' ''Monday'' (Num 1) = Some (Slot \<lparr>subject = ''Math'', teacher = ''T1''\<rparr>) \<and>
   slot_at scarce_schedule ''B'' ''Monday'' (Num 1) = Some Free \<and>
   slot_at scarce_schedule ''B'' ''Monday'' Recess = Some RecessMarker \<and>
   slot_at scarce_schedule ''B'' ''Monday'' Lunch = Some LunchMarker \<and>
   slot_at scarce_schedule ''B'' ''Monday'' (Num 7) = None"
proof -
  have a: "slot_at scarce_schedule ''A'' ''Monday'' (Num 1) =
      Some (Slot \<lparr>subject = ''Math'', teacher = ''T1''\<rparr>)"
    unfolding scarce_schedule_def by code_simp
  have b: "slot_at scarce_schedule ''B'' ''Monday'' (Num 1) = Some Free"
    unfolding scarce_schedule_def by code_simp
  have c: "slot_at scarce_schedule ''B'' ''Monday'' Recess = Some RecessMarker"
    unfolding scarce_schedule_def by code_simp
  have d: "slot_at scarce_schedule ''B'' ''Monday'' Lunch = Some LunchMarker"
    unfolding scarce_schedule_def by code_simp
  have e: "slot_at scarce_schedule ''B'' ''Monday'' (Num 7) = None"
    unfolding scarce_schedule_def by code_simp
  show ?thesis using grid_completeness[OF scarce_schedule_returned] a b c d e by simp
qed

subsection \<open>C5: the slot assigner\<close>

text \<open>
  C5. For a class, a day and a teaching period of a schedule in progress, and a
  rotation whose subjects all have a teacher list, the period step tries the \<open>N\<close>
  candidates of the rotation (\<open>N\<close> its length, the number of subjects), candidate \<open>k\<close>
  being the entry at index \<open>(startIndex + k) mod N\<close>; it takes the first candidate that
  has a teacher \<open>canAssignTeacher\<close> reports free, with the first such teacher of the
  subject's list, writes this pair into the slot and advances the pointer; when no
  candidate has a free teacher the slot is \<open>Free\<close> and the pointer stays. The code
  stores \<open>Free\<close> then (line 128); the slot is \<open>Free\<close> already when its turn comes (in a
  catalog that names every class and every day once), so this store leaves the
  schedule as it was.
\<close>

theorem slot_assigner_algorithm:
  assumes "grid_defined cat S cls day" and "\<forall>s\<in>set rot. TEACHERS cat s \<noteq> None"
  shows "length (candidates rot i) = length rot \<and>
    (\<forall>k<length rot. candidates rot i ! k = rot ! ((i + k) mod length rot)) \<and>
    length (fst (sort_random rnd (SUBJECTS cat) n)) = length (SUBJECTS cat) \<and>
    period_body cat cls day rot p (S, i) =
      (case select_assignment cat S day p (candidates rot i) of
         Some (s, t) \<Rightarrow>
           Inr (set_slot S cls day (Num p) (Slot \<lparr>subject = s, teacher = t\<rparr>), i + 1)
       | None \<Rightarrow> Inr (set_slot S cls day (Num p) Free, i)) \<and>
    write_slot S cls day (Num p) v = Inr (set_slot S cls day (Num p) v) \<and>
    (slot_at S cls day (Num p) = Some Free \<longrightarrow> set_slot S cls day (Num p) Free = S) \<and>
    (distinct (CLASSES cat) \<and> distinct (DAYS cat) \<and> a < length (CLASSES cat) \<and>
     b < length (DAYS cat) \<and> m < length teaching_periods \<and>
     schedule_after cat rnd a b m = Inr S0 \<longrightarrow>
       slot_at S0 (CLASSES cat ! a) (DAYS cat ! b) (Num (teaching_periods ! m)) = Some Free)"
proof (intro conjI allI impI)
  show "length (candidates rot i) = length rot" by (rule length_candidates)
  show "candidates rot i ! k = rot ! ((i + k) mod length rot)" if "k < length rot" for k
    using that by (rule candidates_nth)
  show "length (fst (sort_random rnd (SUBJECTS cat) n)) = length (SUBJECTS cat)"
    using mset_sort_random[of rnd "SUBJECTS cat" n] by (metis size_mset)
  show "period_body cat cls day rot p (S, i) =
      (case select_assignment cat S day p (candidates rot i) of
         Some (s, t) \<Rightarrow>
           Inr (set_slot S cls day (Num p) (Slot \<lparr>subject = s, teacher = t\<rparr>), i + 1)
       | None \<Rightarrow> Inr (set_slot S cls day (Num p) Free, i))"
    using assms by (rule period_body_select)
  show "write_slot S cls day (Num p) v = Inr (set_slot S cls day (Num p) v)"
    using assms(1) by (simp add: write_slot_eq grid_defined_def)
  show "set_slot S cls day (Num p) Free = S" if "slot_at S cls day (Num p) = Some Free"
    using that by (rule set_slot_same)
  show "slot_at S0 (CLASSES cat ! a) (DAYS cat ! b) (Num (teaching_periods ! m)) = Some Free"
    if "distinct (CLASSES cat) \<and> distinct (DAYS cat) \<and> a < length (CLASSES cat) \<and>
      b < length (DAYS cat) \<and> m < length teaching_periods \<and>
      schedule_after cat rnd a b m = Inr S0"
    using that schedule_after_next_slot_free[of cat rnd a b m S0] by simp
qed

theorem slot_assigner_algorithm_witness:
  "grid_defined tiny_catalog tiny_partial ''B'' ''Monday'' \<and>
   candidates [''Science'', ''Math''] 3 = [''Math'', ''Science''] \<and>
   canAssignTeacher tiny_catalog tiny_partial ''T1'' ''Monday'' 4 = Inr False \<and>
   select_assignment tiny_catalog tiny_partial ''Monday'' 4 [''Math'', ''Science''] =
     Some (''Science'', ''T2'') \<and>
   period_body tiny_catalog ''B'' ''Monday'' [''Science'', ''Math''] 4 (tiny_partial, 3) =
     Inr (set_slot tiny_partial ''B'' ''Monday'' (Num 4)
            (Slot \<lparr>subject = ''Science'', teacher = ''T2''\<rparr>), 4) \<and>
   slot_at tiny_partial ''B'' ''Monday'' (Num 4) = Some Free"
proof -
  have f: "slot_at tiny_partial ''B'' ''Monday'' (Num 4) = Some Free"
    unfolding tiny_partial_def by code_simp
  have g: "grid_defined tiny_catalog tiny_partial ''B'' ''Monday''"
    unfolding tiny_partial_def by code_simp
  have t: "\<forall>s\<in>set [''Science'', ''Math'']. TEACHERS tiny_catalog s \<noteq> None"
    by (simp add: tiny_catalog_def tiny_TEACHERS_def)
  have c: "candidates [''Science'', ''Math''] 3 = [''Math'', ''Science'']" by code_simp
  have q: "canAssignTeacher tiny_catalog tiny_partial ''T1'' ''Monday'' 4 = Inr False"
    unfolding tiny_partial_def by code_simp
  have s: "select_assignment tiny_catalog tiny_partial ''Monday'' 4 [''Math'', ''Science''] =
      Some (''Science'', ''T2'')"
    unfolding tiny_partial_def by code_simp
  show ?thesis
    using slot_assigner_algorithm[OF g t, where i = 3 and p = 4 and rnd = rnd_high and v = Free
        and a = 1 and b = 0 and m = 3 and ?S0.0 = tiny_partial] g c q s f
    by (simp add: tiny_partial_returned tiny_catalog_def teaching_periods_def)
qed

subsection \<open>C6: the availability query\<close>

text \<open>
  C6. For a schedule in progress (every class of the catalog has its object for the
  day), a teacher, a day and a teaching period, \<open>canAssignTeacher\<close> returns false if
  and only if some class's slot at the day and period holds an assignment whose
  teacher is the queried one, and true otherwise. It returns nothing but this boolean:
  the schedule is an argument only, and is not changed.
\<close>

theorem canAssignTeacher_correct:
  assumes "has_day cat S day"
  shows "canAssignTeacher cat S tchr day period = Inr (\<not> teacher_booked cat S tchr day period)"
  using assms by (rule canAssignTeacher_eq)

theorem canAssignTeacher_correct_witness:
  "has_day tiny_catalog tiny_partial ''Monday'' \<and>
   canAssignTeacher tiny_catalog tiny_partial ''T1'' ''Monday'' 4 = Inr False \<and>
   teacher_booked tiny_catalog tiny_partial ''T1'' ''Monday'' 4 \<and>
   canAssignTeacher tiny_catalog tiny_partial ''T2'' ''Monday'' 4 = Inr True \<and>
   \<not> teacher_booked tiny_catalog tiny_partial ''T2'' ''Monday'' 4"
proof -
  have a: "teacher_booked tiny_catalog tiny_partial ''T1'' ''Monday'' 4"
    unfolding tiny_partial_def by code_simp
  have b: "\<not> teacher_booked tiny_catalog tiny_partial ''T2'' ''Monday'' 4"
    unfolding tiny_partial_def by code_simp
  show ?thesis
    using canAssignTeacher_correct[OF tiny_partial_has_day, of "''T1''" 4]
      canAssignTeacher_correct[OF tiny_partial_has_day, of "''T2''" 4]
      tiny_partial_has_day a b by simp
qed

subsection \<open>C7: subject validity\<close>

text \<open>
  C7. In the schedule \<open>buildSchedule\<close> returns, the subject of every assignment is a
  subject of the catalog, and its teacher is in the list \<open>TEACHERS\<close> gives for that
  subject.
\<close>

theorem subject_validity:
  assumes "buildSchedule cat rnd = Inr S"
  shows "valid_assignments cat S"
  using assms by (intro reachable_valid_assignments buildSchedule_reachable)

theorem subject_validity_witness:
  "valid_assignments tiny_catalog tiny_schedule \<and>
   slot_at tiny_schedule ''B'' ''Monday'' (Num 1) = Some (Slot \<lparr>subject = ''Math'', teacher = ''T1''\<rparr>) \<and>
   TEACHERS tiny_catalog ''Math'' = Some [''T1'']"
proof -
  have a: "slot_at tiny_schedule ''B'' ''Monday'' (Num 1) =
      Some (Slot \<lparr>subject = ''Math'', teacher = ''T1''\<rparr>)"
    unfolding tiny_schedule_def by code_simp
  have b: "TEACHERS tiny_catalog ''Math'' = Some [''T1'']"
    by (simp add: tiny_catalog_def tiny_TEACHERS_def)
  show ?thesis using subject_validity[OF tiny_schedule_returned] a b by simp
qed

subsection \<open>C9: the builder returns\<close>

text \<open>
  C9. The claim is that \<open>buildSchedule\<close> never throws, for any values of the catalog
  constants. With a subject that has no entry in \<open>TEACHERS\<close> it throws: \<open>TEACHERS[subject]\<close>
  is \<open>undefined\<close>, and the loop over the teachers cannot iterate it.
\<close>

theorem unlisted_subject_counterexample:
  "buildSchedule no_teachers_catalog rnd_low = Inl TypeError"
proof -
  have "isl (buildSchedule no_teachers_catalog rnd_low)" by code_simp
  then show ?thesis by (rule isl_TypeError)
qed

text \<open>
  C9, amended. For any values of the catalog constants in which every subject of
  \<open>SUBJECTS\<close> has an entry in \<open>TEACHERS\<close>, \<open>buildSchedule\<close> does not throw and returns a
  grid that covers every class, day and period. A subject with an empty teacher list
  is skipped as a candidate: the retry loop goes on to the next attempt with the
  schedule unchanged. With no subjects the loop's bound is zero, its body never runs
  (no index is taken modulo zero), and the schedule returned is the initialised grid,
  every teaching period \<open>Free\<close>.
\<close>

theorem buildSchedule_returns_when_listed:
  assumes "teachers_listed cat"
  shows "(\<exists>S. buildSchedule cat rnd = Inr S \<and> grid_complete cat S \<and>
            (SUBJECTS cat = [] \<longrightarrow>
               S = init_schedule cat \<and>
               (\<forall>c\<in>set (CLASSES cat). \<forall>d\<in>set (DAYS cat). \<forall>p\<in>set teaching_periods.
                  slot_at S c d (Num p) = Some Free))) \<and>
         (a < length rot \<and> TEACHERS cat (rot ! ((i + a) mod length rot)) = Some [] \<longrightarrow>
            while_loop cat cls day p rot i S0 False a =
              while_loop cat cls day p rot i S0 False (a + 1)) \<and>
         while_loop cat cls day p [] i S0 False 0 = Inr (S0, False)"
proof (intro conjI impI)
  obtain S where S: "buildSchedule cat rnd = Inr S" using buildSchedule_total[OF assms] by blast
  have r: "reachable cat S" using S by (rule buildSchedule_reachable)
  have "S = init_schedule cat \<and>
      (\<forall>c\<in>set (CLASSES cat). \<forall>d\<in>set (DAYS cat). \<forall>p\<in>set teaching_periods.
         slot_at S c d (Num p) = Some Free)" if "SUBJECTS cat = []"
  proof -
    have "S = init_schedule cat" using r that by (rule reachable_no_subjects)
    then show ?thesis
      by (auto simp: slot_at_init initial_value_def dest: teaching_period_in_PERIODS)
  qed
  then show "\<exists>S. buildSchedule cat rnd = Inr S \<and> grid_complete cat S \<and>
      (SUBJECTS cat = [] \<longrightarrow>
         S = init_schedule cat \<and>
         (\<forall>c\<in>set (CLASSES cat). \<forall>d\<in>set (DAYS cat). \<forall>p\<in>set teaching_periods.
            slot_at S c d (Num p) = Some Free))"
    using S reachable_grid_complete[OF r] by blast
next
  assume "a < length rot \<and> TEACHERS cat (rot ! ((i + a) mod length rot)) = Some []"
  then show "while_loop cat cls day p rot i S0 False a =
      while_loop cat cls day p rot i S0 False (a + 1)"
    by (intro while_loop_skip) simp_all
next
  show "while_loop cat cls day p [] i S0 False 0 = Inr (S0, False)"
    by (simp add: while_loop_end)
qed

theorem buildSchedule_returns_when_listed_witness:
  "teachers_listed sparse_catalog \<and>
   (\<exists>S. buildSchedule sparse_catalog rnd_low = Inr S \<and> grid_complete sparse_catalog S) \<and>
   TEACHERS sparse_catalog ''Math'' = Some [] \<and>
   slot_at (projr (buildSchedule sparse_catalog rnd_low)) ''A'' ''Monday'' (Num 1) =
     Some (Slot \<lparr>subject = ''Art'', teacher = ''T3''\<rparr>) \<and>
   teachers_listed (sparse_catalog\<lparr>SUBJECTS := []\<rparr>) \<and>
   buildSchedule (sparse_catalog\<lparr>SUBJECTS := []\<rparr>) rnd_low =
     Inr (init_schedule (sparse_catalog\<lparr>SUBJECTS := []\<rparr>))"
proof -
  have a: "teachers_listed sparse_catalog" by (simp add: teachers_listed_def sparse_catalog_def)
  have b: "TEACHERS sparse_catalog ''Math'' = Some []" by (simp add: sparse_catalog_def)
  have c: "slot_at (projr (buildSchedule sparse_catalog rnd_low)) ''A'' ''Monday'' (Num 1) =
      Some (Slot \<lparr>subject = ''Art'', teacher = ''T3''\<rparr>)"
    by code_simp
  have d: "teachers_listed (sparse_catalog\<lparr>SUBJECTS := []\<rparr>)" by (simp add: teachers_listed_def)
  have e: "SUBJECTS (sparse_catalog\<lparr>SUBJECTS := []\<rparr>) = []" by simp
  show ?thesis
    using buildSchedule_returns_when_listed[OF a, of rnd_low 0 "[]" 0 "''A''" "''Monday''" 1 Map.empty]
      buildSchedule_returns_when_listed[OF d, of rnd_low 0 "[]" 0 "''A''" "''Monday''" 1 Map.empty]
      a b c d e by auto
qed

subsection \<open>C10: the built-in catalog leaves no slot free\<close>

text \<open>
  C10. The built-in catalog has three classes and six subjects, every subject with at
  least one teacher, and its teacher lists name ten teachers that are pairwise
  distinct. Whatever the random numbers are, \<open>buildSchedule\<close> returns a schedule for it
  in which every teaching period of every class on every day holds an assignment:
  at most three teachers are booked at a day and period, and the assigner tries the
  teachers of all six subjects.
\<close>

theorem mock_catalog_no_free_slot:
  "length (CLASSES mock_catalog) = 3 \<and> length (SUBJECTS mock_catalog) = 6 \<and>
   (\<forall>s\<in>set (SUBJECTS mock_catalog). \<exists>t ts. TEACHERS mock_catalog s = Some (t # ts)) \<and>
   distinct (concat (map (\<lambda>s. the (TEACHERS mock_catalog s)) (SUBJECTS mock_catalog))) \<and>
   length (concat (map (\<lambda>s. the (TEACHERS mock_catalog s)) (SUBJECTS mock_catalog))) = 10 \<and>
   (\<exists>S. buildSchedule mock_catalog rnd = Inr S \<and>
      (\<forall>c\<in>set (CLASSES mock_catalog). \<forall>d\<in>set (DAYS mock_catalog). \<forall>p\<in>set teaching_periods.
         \<exists>slot. slot_at S c d (Num p) = Some (Slot slot)))"
proof -
  have data: "length (CLASSES mock_catalog) = 3 \<and> length (SUBJECTS mock_catalog) = 6 \<and>
     (\<forall>s\<in>set (SUBJECTS mock_catalog). \<exists>t ts. TEACHERS mock_catalog s = Some (t # ts)) \<and>
     distinct (concat (map (\<lambda>s. the (TEACHERS mock_catalog s)) (SUBJECTS mock_catalog))) \<and>
     length (concat (map (\<lambda>s. the (TEACHERS mock_catalog s)) (SUBJECTS mock_catalog))) = 10"
    by (simp add: mock_catalog_def mock_TEACHERS_def)
  obtain S where S: "buildSchedule mock_catalog rnd = Inr S"
    using buildSchedule_total[OF mock_teachers_listed] by blast
  have "\<exists>slot. slot_at S c d (Num p) = Some (Slot slot)"
    if "c \<in> set (CLASSES mock_catalog)" "d \<in> set (DAYS mock_catalog)" "p \<in> set teaching_periods"
    for c d p
  proof -
    have "assigned_at S c d p"
      using buildSchedule_all_assigned[OF S mock_always_assignable] that by blast
    then show ?thesis by (auto simp: assigned_at_def split: option.splits SlotValue.splits)
  qed
  then show ?thesis using data S by blast
qed

theorem mock_catalog_no_free_slot_witness:
  "\<exists>S slot. buildSchedule mock_catalog rnd_high = Inr S \<and>
     slot_at S ''Grade 11-A'' ''Friday'' (Num 6) = Some (Slot slot)"
  using mock_catalog_no_free_slot[of rnd_high]
  by (auto simp: mock_catalog_def teaching_periods_def)

end
